theory Spec2Isabelle
  imports Main "HOL-Library.Sublist" "HOL-Library.Multiset"
    "HOL-Library.Char_ord" "HOL-Library.List_Lexorder"
begin

section \<open>Strings as JavaScript sees them\<close>

text \<open>
  A JavaScript string is modelled as a \<open>string\<close> (a list of characters).
  \<open>splitSep c s\<close> is \<open>s.split(c)\<close> for a one-character separator: it always
  returns at least one segment, and \<open>"".split("/")\<close> is \<open>[""]\<close>.
  \<open>joinSep c xs\<close> is \<open>xs.join(c)\<close>.
\<close>

fun splitSep :: "char \<Rightarrow> string \<Rightarrow> string list" where
  "splitSep c [] = [[]]"
| "splitSep c (x # xs) =
     (if x = c then [] # splitSep c xs
      else (case splitSep c xs of
              [] \<Rightarrow> [[x]]
            | s # ss \<Rightarrow> (x # s) # ss))"

fun joinSep :: "char \<Rightarrow> string list \<Rightarrow> string" where
  "joinSep c [] = []"
| "joinSep c [s] = s"
| "joinSep c (s # t # ss) = s @ c # joinSep c (t # ss)"

section \<open>Pattern classifier\<close>

text \<open>\<open>pattern.indexOf("!") === 0\<close>: the pattern starts with the negation marker.\<close>

definition startsWithBang :: "string \<Rightarrow> bool" where
  "startsWithBang pattern = (case pattern of [] \<Rightarrow> False | c # _ \<Rightarrow> c = CHR ''!'')"

definition negativePatterns :: "string list \<Rightarrow> string list" where
  "negativePatterns patterns = map (drop 1) (filter startsWithBang patterns)"

definition positivePatterns :: "string list \<Rightarrow> string list" where
  "positivePatterns patterns = filter (\<lambda>pattern. \<not> startsWithBang pattern) patterns"

definition positivePattern :: "string \<Rightarrow> string" where
  "positivePattern pattern = (if startsWithBang pattern then drop 1 pattern else pattern)"

section \<open>Pattern validator\<close>

text \<open>
  A rule is a message and a regular expression; the regular expression is modelled by
  the predicate "the string has a match of it". The rule set is a mapping from names
  to rules that \<open>fluid.each\<close> walks in insertion order, hence an association list.
\<close>

record rule =
  message :: string
  pattern :: "string \<Rightarrow> bool"

record violation =
  glob :: string
  error :: string

text \<open>The five regular expressions of \<open>gpii.glob.invalidGlobRules\<close>.\<close>

definition reLeadingWildcard :: "string \<Rightarrow> bool" where
  \<comment> \<open>\<open>/^(\.\/)?\*\*/\<close>\<close>
  "reLeadingWildcard s = (prefix ''**'' s \<or> prefix ''./**'' s)"

definition reWindowsSeparator :: "string \<Rightarrow> bool" where
  \<comment> \<open>a backslash anywhere\<close>
  "reWindowsSeparator s = (CHR 0x5C \<in> set s)"

definition reParentDir :: "string \<Rightarrow> bool" where
  \<comment> \<open>\<open>/^\.\./\<close>\<close>
  "reParentDir s = prefix ''..'' s"

definition reRegexp :: "string \<Rightarrow> bool" where
  \<comment> \<open>one of the characters \<open>[ ] ( ) { } |\<close> anywhere\<close>
  "reRegexp s = (\<exists>c \<in> set s. c \<in> set ''[](){}|'')"

definition reWholeRoot :: "string \<Rightarrow> bool" where
  \<comment> \<open>\<open>/^\.\/$/\<close>: without the multiline flag, \<open>$\<close> is the end of the input\<close>
  "reWholeRoot s = (s = ''./'')"

definition invalidGlobRules :: "(string \<times> rule) list" where
  "invalidGlobRules =
     [(''noLeadingWildcard'',
         \<lparr>message = ''contains a leading wildcard'', pattern = reLeadingWildcard\<rparr>),
      (''noWindowsSeparator'',
         \<lparr>message = ''contains a windows separator'', pattern = reWindowsSeparator\<rparr>),
      (''noParentDir'',
         \<lparr>message = ''contains a reference to a parent directory'', pattern = reParentDir\<rparr>),
      (''noRegexp'',
         \<lparr>message = ''contains a character used to define a regular expression'',
          pattern = reRegexp\<rparr>),
      (''noWholeRoot'',
         \<lparr>message = ''contains a reference to the whole of the root directory'',
          pattern = reWholeRoot\<rparr>)]"

text \<open>
  \<open>rules = rules || gpii.glob.invalidGlobRules\<close>: an absent argument is \<open>None\<close>; an empty
  mapping is an object, hence truthy, and stays empty.
\<close>

definition activeRules :: "(string \<times> rule) list option \<Rightarrow> (string \<times> rule) list" where
  "activeRules rules = (case rules of None \<Rightarrow> invalidGlobRules | Some rs \<Rightarrow> rs)"

fun validateEach :: "string \<Rightarrow> (string \<times> rule) list \<Rightarrow> violation list" where
  "validateEach positive [] = []"
| "validateEach positive ((name, invalidGlobRule) # rest) =
     (if pattern invalidGlobRule positive
      then \<lparr>glob = positive, error = message invalidGlobRule\<rparr> # validateEach positive rest
      else validateEach positive rest)"

definition validatePattern ::
  "string \<Rightarrow> (string \<times> rule) list option \<Rightarrow> violation list" where
  "validatePattern pat rules = validateEach (positivePattern pat) (activeRules rules)"

fun validatePatternArray ::
  "string list \<Rightarrow> (string \<times> rule) list option \<Rightarrow> violation list" where
  "validatePatternArray [] rules = []"
| "validatePatternArray (pat # patternArray) rules =
     validatePattern pat rules @ validatePatternArray patternArray rules"

text \<open>The line \<open>fluid.log\<close> receives for one violation.\<close>

definition violationLine :: "violation \<Rightarrow> string" where
  "violationLine v = ''ERROR: Pattern '' @ [CHR 0x27] @ glob v @ [CHR 0x27] @ '' '' @ error v @ ''.''"

definition logInvalidRuleFeedback :: "violation list \<Rightarrow> string list" where
  "logInvalidRuleFeedback violations = map violationLine violations"


section \<open>Single-pattern matcher\<close>

text \<open>
  The options object handed to the glob matcher. \<open>minimatchOptions || {}\<close> replaces an
  absent argument by the empty object, in which every toggle is off.
\<close>

record minimatchOptions =
  dot :: bool
  matchBase :: bool

definition emptyOptions :: minimatchOptions where
  "emptyOptions = \<lparr>dot = False, matchBase = False\<rparr>"

type_synonym matcher = "string \<Rightarrow> string \<Rightarrow> minimatchOptions \<Rightarrow> bool"

text \<open>
  The loop of \<open>dirMightMatch\<close> over the index \<open>a\<close>. Reading \<open>patternSegments[a]\<close> beyond
  the end of the array gives \<open>undefined\<close>, modelled by \<open>None\<close>: it is not \<open>"**"\<close> and it
  differs from every path segment.
\<close>

definition segmentAt :: "string list \<Rightarrow> nat \<Rightarrow> string option" where
  "segmentAt segments a = (if a < length segments then Some (segments ! a) else None)"

function dirMightMatchLoop :: "string list \<Rightarrow> string list \<Rightarrow> nat \<Rightarrow> bool" where
  "dirMightMatchLoop patternSegments pathSegments a =
     (if a < length pathSegments then
        (let patternSegment = segmentAt patternSegments a in
         if patternSegment = Some ''**'' then True
         else (let pathSegment = segmentAt pathSegments a in
               if pathSegment \<noteq> patternSegment then False
               else dirMightMatchLoop patternSegments pathSegments (Suc a)))
      else True)"
  by pat_completeness auto
termination
  by (relation "measure (\<lambda>(patternSegments, pathSegments, a). length pathSegments - a)") auto

declare dirMightMatchLoop.simps [simp del]

definition dirMightMatch :: "string \<Rightarrow> string \<Rightarrow> bool" where
  "dirMightMatch pathToDir pat =
     (if CHR ''/'' \<in> set pat
      then dirMightMatchLoop (splitSep CHR ''/'' pat) (splitSep CHR ''/'' pathToDir) 0
      else True)"

text \<open>
  \<open>matchesSinglePattern\<close>: the glob matcher \<open>minimatch\<close> is a library outside the
  repository and is a parameter here. An absent \<open>isDir\<close> argument is \<open>False\<close>.
\<close>

definition matchesSinglePattern ::
  "matcher \<Rightarrow> string \<Rightarrow> string \<Rightarrow> minimatchOptions option \<Rightarrow> bool \<Rightarrow> bool" where
  "matchesSinglePattern minimatch pathToMatch pat minimatchOptions isDir =
     (let opts = (case minimatchOptions of None \<Rightarrow> emptyOptions | Some given \<Rightarrow> given) in
      if isDir then dirMightMatch pathToMatch pat
      else minimatch pathToMatch pat opts)"

section \<open>The file system and the path-set filter\<close>

text \<open>
  What \<open>fs.statSync\<close> tells about a path (it follows symbolic links): a regular file, a
  directory, or something else (a socket, a device). \<open>None\<close> is the call that throws.
  \<open>fs.readdirSync\<close> gives the names in a directory, in no particular order, or throws.
\<close>

datatype stats = IsFile | IsDirectory | IsOther

datatype failure =
    StatFailed string
  | ReaddirFailed string
  | Fail string

record filesystem =
  readdirSync :: "string \<Rightarrow> string list option"
  statSync :: "string \<Rightarrow> stats option"

text \<open>
  \<open>fluid.find\<close> returns the first value other than \<open>undefined\<close> that the callback
  returns; the callbacks here return \<open>true\<close> or \<open>undefined\<close>.
\<close>

fun fluidFind :: "'a list \<Rightarrow> ('a \<Rightarrow> bool) \<Rightarrow> bool" where
  "fluidFind [] f = False"
| "fluidFind (x # xs) f = (if f x then True else fluidFind xs f)"

text \<open>The decision of \<open>filterPaths\<close> for one entry, once its kind is known.\<close>

definition allowsPath ::
  "matcher \<Rightarrow> string list \<Rightarrow> string list \<Rightarrow> minimatchOptions option \<Rightarrow> bool \<Rightarrow> string \<Rightarrow> bool"
  where
  "allowsPath minimatch includes excludes minimatchOptions isDir singlePath =
     (let positiveIncludes = positivePatterns includes;
          negativeIncludes = negativePatterns includes;
          positiveExcludes = positivePatterns excludes;
          negativeExcludes = negativePatterns excludes;
          matchesPositiveInclude = fluidFind positiveIncludes
            (\<lambda>positivePattern.
               matchesSinglePattern minimatch singlePath positivePattern minimatchOptions isDir)
      in if matchesPositiveInclude then
           (let matchesNegatedExclude = fluidFind negativeExcludes
              (\<lambda>negatedExcludePattern.
                 matchesSinglePattern minimatch singlePath negatedExcludePattern
                   minimatchOptions isDir)
            in if matchesNegatedExclude then True
               else (let combinedExcludes = negativeIncludes @ positiveExcludes;
                         matchesExclude = fluidFind combinedExcludes
                           (\<lambda>excludePattern.
                              matchesSinglePattern minimatch singlePath excludePattern
                                minimatchOptions False)
                     in \<not> matchesExclude))
         else False)"

text \<open>
  \<open>filterPaths\<close>: the entries are visited in order; the first \<open>statSync\<close> that throws
  ends the call.
\<close>

fun filterPaths ::
  "filesystem \<Rightarrow> matcher \<Rightarrow> string list \<Rightarrow> string list \<Rightarrow> string list \<Rightarrow>
     minimatchOptions option \<Rightarrow> failure + string list" where
  "filterPaths fs minimatch [] includes excludes minimatchOptions = Inr []"
| "filterPaths fs minimatch (singlePath # dirPaths) includes excludes minimatchOptions =
     (case statSync fs singlePath of
        None \<Rightarrow> Inl (StatFailed singlePath)
      | Some st \<Rightarrow>
          (case filterPaths fs minimatch dirPaths includes excludes minimatchOptions of
             Inl e \<Rightarrow> Inl e
           | Inr matchingPaths \<Rightarrow>
               Inr (if allowsPath minimatch includes excludes minimatchOptions
                         (st = IsDirectory) singlePath
                    then singlePath # matchingPaths else matchingPaths)))"

section \<open>A reference glob matcher\<close>

text \<open>
  Modelled from the spec: the glob-matching primitive that \<open>matchesSinglePattern\<close>
  delegates to for files is the library \<open>minimatch\<close>, which is not part of the
  repository. The spec describes it as segment-wise wildcard matching: \<open>*\<close> matches
  within a single path segment, \<open>**\<close> matches zero or more path segments, the option
  \<open>dot\<close> lets an unanchored wildcard match a name with a leading dot, and the option
  \<open>matchBase\<close> lets a pattern without separator match the basename at any depth.
  \<open>globMatch\<close> follows these words. The theorems about the repository's functions
  hold for every matcher; \<open>globMatch\<close> is the matcher at the concrete inputs.
\<close>

fun segMatch :: "string \<Rightarrow> string \<Rightarrow> bool" where
  "segMatch [] name = (name = [])"
| "segMatch (c # cs) [] = (c = CHR ''*'' \<and> segMatch cs [])"
| "segMatch (c # cs) (d # ds) =
     (if c = CHR ''*'' then segMatch cs (d # ds) \<or> segMatch (c # cs) ds
      else c = d \<and> segMatch cs ds)"

definition nameMatch :: "bool \<Rightarrow> string \<Rightarrow> string \<Rightarrow> bool" where
  "nameMatch dotOption seg name =
     (segMatch seg name \<and> (dotOption \<or> prefix ''.'' seg \<or> \<not> prefix ''.'' name))"

fun segmentsMatch :: "bool \<Rightarrow> string list \<Rightarrow> string list \<Rightarrow> bool" where
  "segmentsMatch dotOption [] names = (names = [])"
| "segmentsMatch dotOption (seg # segs) [] = (seg = ''**'' \<and> segmentsMatch dotOption segs [])"
| "segmentsMatch dotOption (seg # segs) (name # names) =
     (if seg = ''**''
      then segmentsMatch dotOption segs (name # names)
           \<or> segmentsMatch dotOption (seg # segs) names
      else nameMatch dotOption seg name \<and> segmentsMatch dotOption segs names)"

definition globMatch :: matcher where
  "globMatch pathToMatch pat opts =
     (if matchBase opts \<and> CHR ''/'' \<notin> set pat
      then nameMatch (dot opts) pat (last (splitSep CHR ''/'' pathToMatch))
      else segmentsMatch (dot opts) (splitSep CHR ''/'' pat) (splitSep CHR ''/'' pathToMatch))"

text \<open>\<open>dir\<close> is a strict ancestor of \<open>file\<close>: its segments are a proper prefix.\<close>

definition isStrictAncestor :: "string \<Rightarrow> string \<Rightarrow> bool" where
  "isStrictAncestor dir file =
     (let ds = splitSep CHR ''/'' dir; fs = splitSep CHR ''/'' file
      in length ds < length fs \<and> take (length ds) fs = ds)"

text \<open>
  The filter as section 4.6 of the specification words it for the exclude side: every
  exclude-side pattern, the negated excludes too, is matched exactly, whatever the
  kind of the entry. For comparison with \<open>allowsPath\<close>.
\<close>

definition allowsPath_excludesExact ::
  "matcher \<Rightarrow> string list \<Rightarrow> string list \<Rightarrow> minimatchOptions option \<Rightarrow> bool \<Rightarrow> string \<Rightarrow> bool"
  where
  "allowsPath_excludesExact minimatch includes excludes minimatchOptions isDir singlePath =
     (fluidFind (positivePatterns includes)
        (\<lambda>p. matchesSinglePattern minimatch singlePath p minimatchOptions isDir)
      \<and> (fluidFind (negativePatterns excludes)
            (\<lambda>p. matchesSinglePattern minimatch singlePath p minimatchOptions False)
         \<or> \<not> fluidFind (negativePatterns includes @ positivePatterns excludes)
            (\<lambda>p. matchesSinglePattern minimatch singlePath p minimatchOptions False)))"

section \<open>Path rooting\<close>

text \<open>
  \<open>path.posix.resolve\<close> belongs to the Node.js library, outside the repository. It is
  modelled after its documented algorithm: the arguments are taken from right to
  left and prepended to the path until an absolute one is met, the current working
  directory being taken when none is; the path is then normalised, which drops empty
  and \<open>.\<close> segments, lets \<open>..\<close> remove the segment before it, and leaves no trailing
  separator. The working directory is a parameter.
\<close>

fun resolveCollect :: "string \<Rightarrow> string list \<Rightarrow> string \<Rightarrow> string \<times> bool" where
  "resolveCollect cwd [] resolvedPath =
     (if cwd = [] then (resolvedPath, False)
      else (cwd @ ''/'' @ resolvedPath, prefix ''/'' cwd))"
| "resolveCollect cwd (p # ps) resolvedPath =
     (if p = [] then resolveCollect cwd ps resolvedPath
      else if prefix ''/'' p then (p @ ''/'' @ resolvedPath, True)
      else resolveCollect cwd ps (p @ ''/'' @ resolvedPath))"

definition normalizeStep :: "bool \<Rightarrow> string list \<Rightarrow> string \<Rightarrow> string list" where
  "normalizeStep allowAboveRoot res seg =
     (if seg = [] \<or> seg = ''.'' then res
      else if seg = ''..'' then
        (case res of
           [] \<Rightarrow> (if allowAboveRoot then [''..''] else [])
         | lastSeg # below \<Rightarrow>
             (if lastSeg = ''..'' then (if allowAboveRoot then ''..'' # res else res)
              else below))
      else seg # res)"

definition normalizeSegments :: "bool \<Rightarrow> string list \<Rightarrow> string list" where
  "normalizeSegments allowAboveRoot segs = rev (foldl (normalizeStep allowAboveRoot) [] segs)"

definition posixResolve :: "string \<Rightarrow> string list \<Rightarrow> string" where
  "posixResolve cwd args =
     (case resolveCollect cwd (rev args) [] of
        (resolvedPath, resolvedAbsolute) \<Rightarrow>
          (let normalized = joinSep CHR ''/''
                 (normalizeSegments (\<not> resolvedAbsolute) (splitSep CHR ''/'' resolvedPath))
           in if resolvedAbsolute then ''/'' @ normalized
              else if normalized \<noteq> [] then normalized else ''.''))"

text \<open>
  \<open>rawPath.split(/[\/\\]+/)\<close>: the separators are the maximal runs of slashes and
  backslashes.
\<close>

function splitRuns :: "(char \<Rightarrow> bool) \<Rightarrow> string \<Rightarrow> string list" where
  "splitRuns isSep [] = [[]]"
| "splitRuns isSep (x # xs) =
     (if isSep x then [] # splitRuns isSep (dropWhile isSep xs)
      else (case splitRuns isSep xs of
              [] \<Rightarrow> [[x]]
            | s # ss \<Rightarrow> (x # s) # ss))"
  by pat_completeness auto
termination
  by (relation "measure (\<lambda>(isSep, s). length s)")
    (auto simp: length_dropWhile_le less_Suc_eq_le)

definition isSlash :: "char \<Rightarrow> bool" where
  "isSlash c = (c = CHR ''/'' \<or> c = CHR 0x5C)"

definition isDriveLetter :: "string \<Rightarrow> bool" where
  \<comment> \<open>\<open>/^[a-zA-Z]:$/\<close>\<close>
  "isDriveLetter seg =
     (case seg of
        [c, d] \<Rightarrow> ((CHR ''a'' \<le> c \<and> c \<le> CHR ''z'') \<or> (CHR ''A'' \<le> c \<and> c \<le> CHR ''Z''))
                   \<and> d = CHR '':''
      | _ \<Rightarrow> False)"

definition sanitisePath :: "string \<Rightarrow> string" where
  "sanitisePath rawPath =
     (if \<exists>c \<in> set rawPath. c = CHR '':'' \<or> c = CHR 0x5C then
        (case splitRuns isSlash rawPath of
           [] \<Rightarrow> []
         | first # others \<Rightarrow>
             (let firstSegment = (if isDriveLetter first then [] else first);
                  sanitisedSegments = [firstSegment] @ others
              in joinSep CHR ''/'' sanitisedSegments))
      else rawPath)"

definition addPathToPattern :: "string \<Rightarrow> string \<Rightarrow> string \<Rightarrow> string" where
  "addPathToPattern cwd sanitisedPath pat =
     (let positive = positivePattern pat;
          isNegated = (positive \<noteq> pat);
          patternSegments = splitSep CHR ''/'' positive
      in if length patternSegments > 1 then
           (let isFullPath = (patternSegments ! 0 = []);
                firstSegment = (if isFullPath then ''/'' @ patternSegments ! 1
                                else patternSegments ! 0);
                remainingSegments = drop (if isFullPath then 2 else 1) patternSegments;
                resolvedPath = posixResolve cwd
                  [sanitisedPath, firstSegment, joinSep CHR ''/'' remainingSegments]
            in (if isNegated then ''!'' else []) @ resolvedPath)
         else pat)"

definition addPathToPatterns :: "string \<Rightarrow> string \<Rightarrow> string list \<Rightarrow> string list" where
  "addPathToPatterns cwd rootPath patterns =
     (let sanitisedPath = sanitisePath rootPath
      in map (addPathToPattern cwd sanitisedPath) patterns)"

section \<open>Recursive scanner and entry point\<close>

text \<open>
  The loop of \<open>scanSingleDir\<close> over the allowed entries; \<open>recurse\<close> is the scan of a
  sub-directory. A scan that does not return is \<open>None\<close>; a scan that throws is
  \<open>Some (Inl e)\<close>.
\<close>

fun scanEntries ::
  "(string \<Rightarrow> (failure + string list) option) \<Rightarrow> filesystem \<Rightarrow> string list \<Rightarrow>
     (failure + string list) option" where
  "scanEntries recurse fs [] = Some (Inr [])"
| "scanEntries recurse fs (singlePath # rest) =
     (case statSync fs singlePath of
        None \<Rightarrow> Some (Inl (StatFailed singlePath))
      | Some itemStats \<Rightarrow>
          if itemStats = IsDirectory then
            (case recurse singlePath of
               None \<Rightarrow> None
             | Some (Inl e) \<Rightarrow> Some (Inl e)
             | Some (Inr subMatches) \<Rightarrow>
                 (case scanEntries recurse fs rest of
                    None \<Rightarrow> None
                  | Some (Inl e) \<Rightarrow> Some (Inl e)
                  | Some (Inr matchingPaths) \<Rightarrow> Some (Inr (subMatches @ matchingPaths))))
          else if itemStats = IsFile then
            (case scanEntries recurse fs rest of
               None \<Rightarrow> None
             | Some (Inl e) \<Rightarrow> Some (Inl e)
             | Some (Inr matchingPaths) \<Rightarrow> Some (Inr (singlePath # matchingPaths)))
          else scanEntries recurse fs rest)"

text \<open>
  \<open>scanSingleDir\<close> calls itself on every allowed sub-directory and nothing bounds the
  depth (a symbolic link to an ancestor is a directory for \<open>statSync\<close>), so the model
  takes the depth it may use as fuel: \<open>None\<close> says that the fuel did not suffice.
  Strings are sorted as \<open>Array.prototype.sort\<close> does without a comparator, by code
  units, which is the lexicographic order on character lists.
\<close>

fun scanSingleDir ::
  "nat \<Rightarrow> filesystem \<Rightarrow> matcher \<Rightarrow> string \<Rightarrow> string \<Rightarrow> string list \<Rightarrow> string list \<Rightarrow>
     minimatchOptions option \<Rightarrow> (failure + string list) option" where
  "scanSingleDir 0 fs minimatch cwd dirPath includes excludes minimatchOptions = None"
| "scanSingleDir (Suc fuel) fs minimatch cwd dirPath includes excludes minimatchOptions =
     (case readdirSync fs dirPath of
        None \<Rightarrow> Some (Inl (ReaddirFailed dirPath))
      | Some names \<Rightarrow>
          (let dirPaths = sort (map (\<lambda>subPath. posixResolve cwd [dirPath, subPath]) names)
           in case filterPaths fs minimatch dirPaths includes excludes minimatchOptions of
                Inl e \<Rightarrow> Some (Inl e)
              | Inr allowedPaths \<Rightarrow>
                  scanEntries
                    (\<lambda>singlePath. scanSingleDir fuel fs minimatch cwd singlePath
                                     includes excludes minimatchOptions)
                    fs allowedPaths))"

text \<open>
  \<open>findFiles\<close> returns the lines it logged and the outcome of the call. \<open>fluid.fail\<close>
  throws; \<open>fluid.module.resolvePath\<close> belongs to the Infusion library and is a
  parameter.
\<close>

definition invalidMessage :: string where
  "invalidMessage = ''One or more glob patterns you have entered are invalid.  Cannot continue.''"

definition findFiles ::
  "nat \<Rightarrow> filesystem \<Rightarrow> matcher \<Rightarrow> string \<Rightarrow> (string \<Rightarrow> string) \<Rightarrow> string \<Rightarrow>
     string list \<Rightarrow> string list \<Rightarrow> minimatchOptions option \<Rightarrow> (string \<times> rule) list option \<Rightarrow>
     string list \<times> (failure + string list) option" where
  "findFiles fuel fs minimatch cwd resolvePath rootPath includes excludes minimatchOptions rules =
     (let invalidIncludes = validatePatternArray includes rules;
          invalidExcludes = validatePatternArray excludes rules
      in if invalidIncludes \<noteq> [] \<or> invalidExcludes \<noteq> [] then
           ((if invalidIncludes \<noteq> [] then logInvalidRuleFeedback invalidIncludes else [])
              @ (if invalidExcludes \<noteq> [] then logInvalidRuleFeedback invalidExcludes else []),
            Some (Inl (Fail invalidMessage)))
         else
           (let resolvedPath = sanitisePath (resolvePath rootPath);
                pathedIncludes = addPathToPatterns cwd resolvedPath includes;
                pathedExcludes = addPathToPatterns cwd resolvedPath excludes
            in ([], scanSingleDir fuel fs minimatch cwd resolvedPath
                      pathedIncludes pathedExcludes minimatchOptions)))"

text \<open>
  A small tree for the concrete instances: the directory \<open>/r\<close> holds the file \<open>b.js\<close>
  and the directory \<open>a\<close>, which holds the file \<open>x.js\<close>. The order in which \<open>/r\<close> is
  listed is the argument.
\<close>

definition sampleTree :: "string list \<Rightarrow> filesystem" where
  "sampleTree rootListing =
     \<lparr>readdirSync = (\<lambda>d. if d = ''/r'' then Some rootListing
                          else if d = ''/r/a'' then Some [''x.js''] else None),
      statSync = (\<lambda>p. if p = ''/r/a'' then Some IsDirectory
                       else if p = ''/r/b.js'' \<or> p = ''/r/a/x.js'' then Some IsFile
                       else None)\<rparr>"
section \<open>Properties of the classifier\<close>

lemma double_bang_iff:
  "prefix ''!!'' p \<longleftrightarrow> startsWithBang p \<and> startsWithBang (drop 1 p)"
proof (cases p)
  case Nil
  then show ?thesis by (simp add: startsWithBang_def)
next
  case (Cons a q)
  then show ?thesis by (cases q) (auto simp: startsWithBang_def)
qed

text \<open>
  Claim C8, as stated: \<open>positivePattern (positivePattern p) = positivePattern p\<close> for every
  pattern. The function removes exactly one marker, so a pattern with two leading
  markers loses one at each application.
\<close>

theorem positivePattern_not_idempotent:
  "positivePattern (positivePattern ''!!a'') \<noteq> positivePattern ''!!a''"
  by (simp add: positivePattern_def startsWithBang_def)

text \<open>
  Claim C8, amended: \<open>positivePattern\<close> removes one leading negation marker, and
  applying it twice equals applying it once exactly for the patterns that do not
  begin with two markers; in particular it is the identity on positive patterns.
\<close>

theorem positivePattern_idempotent_iff:
  "(positivePattern (positivePattern p) = positivePattern p) = (\<not> prefix ''!!'' p)"
proof (cases "startsWithBang p")
  case False
  then show ?thesis by (simp add: positivePattern_def double_bang_iff)
next
  case True
  note sb = this
  show ?thesis
  proof (cases "startsWithBang (drop 1 p)")
    case False
    with sb show ?thesis by (simp add: positivePattern_def double_bang_iff)
  next
    case True
    then obtain c q where q: "drop 1 p = c # q"
      by (cases "drop 1 p") (auto simp: startsWithBang_def)
    have "drop 1 (drop 1 p) \<noteq> drop 1 p" using q by auto
    with sb True show ?thesis by (simp add: positivePattern_def double_bang_iff)
  qed
qed

theorem positivePattern_idempotent_iff_witness:
  "positivePattern (positivePattern ''!src/a.js'') = positivePattern ''!src/a.js''
   \<and> \<not> prefix ''!!'' ''!src/a.js'' \<and> positivePattern ''!src/a.js'' = ''src/a.js''"
  using positivePattern_idempotent_iff [of "''!src/a.js''"]
  by (simp add: positivePattern_def startsWithBang_def)

section \<open>Properties of the validator\<close>

lemma validateEach_glob: "v \<in> set (validateEach pos rs) \<Longrightarrow> glob v = pos"
  by (induction rs) (auto split: if_splits)

lemma validateEach_hit:
  "(name, r) \<in> set rs \<Longrightarrow> pattern r pos \<Longrightarrow>
     \<lparr>glob = pos, error = message r\<rparr> \<in> set (validateEach pos rs)"
  by (induction rs) auto

lemma default_rule_hit:
  "(name, r) \<in> set invalidGlobRules \<Longrightarrow> pattern r (positivePattern p) \<Longrightarrow>
     \<lparr>glob = positivePattern p, error = message r\<rparr> \<in> set (validatePattern p None)"
  by (simp add: validatePattern_def activeRules_def validateEach_hit)

text \<open>
  Claim C6: under the default rule set (no rule argument), \<open>validatePattern\<close> reports
  a violation, for the positive form of the pattern and with the rule's message,
  whenever that positive form begins with \<open>**\<close> or \<open>./**\<close>, contains a backslash,
  begins with \<open>..\<close>, contains one of \<open>[ ] ( ) { } |\<close>, or is exactly \<open>./\<close>. Every
  violation names the positive form, whatever the rule set; and an empty rule mapping
  yields no violation for any pattern.
\<close>

theorem validatePattern_default_rules:
  fixes p :: string
  defines "pos \<equiv> positivePattern p"
  shows "(prefix ''**'' pos \<or> prefix ''./**'' pos \<longrightarrow>
            \<lparr>glob = pos, error = ''contains a leading wildcard''\<rparr>
              \<in> set (validatePattern p None))
       \<and> (CHR 0x5C \<in> set pos \<longrightarrow>
            \<lparr>glob = pos, error = ''contains a windows separator''\<rparr>
              \<in> set (validatePattern p None))
       \<and> (prefix ''..'' pos \<longrightarrow>
            \<lparr>glob = pos, error = ''contains a reference to a parent directory''\<rparr>
              \<in> set (validatePattern p None))
       \<and> ((\<exists>c \<in> set pos. c \<in> set ''[](){}|'') \<longrightarrow>
            \<lparr>glob = pos, error = ''contains a character used to define a regular expression''\<rparr>
              \<in> set (validatePattern p None))
       \<and> (pos = ''./'' \<longrightarrow>
            \<lparr>glob = pos, error = ''contains a reference to the whole of the root directory''\<rparr>
              \<in> set (validatePattern p None))
       \<and> (\<forall>v \<in> set (validatePattern p rules). glob v = pos)
       \<and> validatePattern p (Some []) = []"
proof -
  have a: "prefix ''**'' pos \<or> prefix ''./**'' pos \<longrightarrow>
            \<lparr>glob = pos, error = ''contains a leading wildcard''\<rparr>
              \<in> set (validatePattern p None)"
    using default_rule_hit [of "''noLeadingWildcard''"
        "\<lparr>message = ''contains a leading wildcard'', pattern = reLeadingWildcard\<rparr>" p]
    by (simp add: invalidGlobRules_def reLeadingWildcard_def pos_def)
  have b: "CHR 0x5C \<in> set pos \<longrightarrow>
            \<lparr>glob = pos, error = ''contains a windows separator''\<rparr>
              \<in> set (validatePattern p None)"
    using default_rule_hit [of "''noWindowsSeparator''"
        "\<lparr>message = ''contains a windows separator'', pattern = reWindowsSeparator\<rparr>" p]
    by (simp add: invalidGlobRules_def reWindowsSeparator_def pos_def)
  have c: "prefix ''..'' pos \<longrightarrow>
            \<lparr>glob = pos, error = ''contains a reference to a parent directory''\<rparr>
              \<in> set (validatePattern p None)"
    using default_rule_hit [of "''noParentDir''"
        "\<lparr>message = ''contains a reference to a parent directory'', pattern = reParentDir\<rparr>" p]
    by (simp add: invalidGlobRules_def reParentDir_def pos_def)
  have d: "(\<exists>c \<in> set pos. c \<in> set ''[](){}|'') \<longrightarrow>
            \<lparr>glob = pos, error = ''contains a character used to define a regular expression''\<rparr>
              \<in> set (validatePattern p None)"
    using default_rule_hit [of "''noRegexp''"
        "\<lparr>message = ''contains a character used to define a regular expression'',
          pattern = reRegexp\<rparr>" p]
    by (simp add: invalidGlobRules_def reRegexp_def pos_def)
  have e: "pos = ''./'' \<longrightarrow>
            \<lparr>glob = pos, error = ''contains a reference to the whole of the root directory''\<rparr>
              \<in> set (validatePattern p None)"
    using default_rule_hit [of "''noWholeRoot''"
        "\<lparr>message = ''contains a reference to the whole of the root directory'',
          pattern = reWholeRoot\<rparr>" p]
    by (simp add: invalidGlobRules_def reWholeRoot_def pos_def)
  have f: "\<forall>v \<in> set (validatePattern p rules). glob v = pos"
    by (auto simp: validatePattern_def pos_def dest: validateEach_glob)
  have g: "validatePattern p (Some []) = []"
    by (simp add: validatePattern_def activeRules_def)
  from a b c d e f g show ?thesis by blast
qed

theorem validatePattern_default_rules_witness:
  "\<lparr>glob = ''./**/*.js'', error = ''contains a leading wildcard''\<rparr>
      \<in> set (validatePattern ''!./**/*.js'' None)
   \<and> \<lparr>glob = [CHR ''c'', CHR '':'', CHR 0x5C], error = ''contains a windows separator''\<rparr>
      \<in> set (validatePattern [CHR ''c'', CHR '':'', CHR 0x5C] None)
   \<and> \<lparr>glob = ''../filename.js'', error = ''contains a reference to a parent directory''\<rparr>
      \<in> set (validatePattern ''../filename.js'' None)
   \<and> \<lparr>glob = ''./(this|that)/**/*.js'',
       error = ''contains a character used to define a regular expression''\<rparr>
      \<in> set (validatePattern ''./(this|that)/**/*.js'' None)
   \<and> \<lparr>glob = ''./'', error = ''contains a reference to the whole of the root directory''\<rparr>
      \<in> set (validatePattern ''!./'' None)
   \<and> (\<exists>v \<in> set (validatePattern ''!**'' None). glob v = ''**'')
   \<and> validatePattern ''!**'' None \<noteq> []"
proof -
  have p1: "positivePattern ''!./**/*.js'' = ''./**/*.js''"
    and p2: "positivePattern [CHR ''c'', CHR '':'', CHR 0x5C] = [CHR ''c'', CHR '':'', CHR 0x5C]"
    and p3: "positivePattern ''../filename.js'' = ''../filename.js''"
    and p4: "positivePattern ''./(this|that)/**/*.js'' = ''./(this|that)/**/*.js''"
    and p5: "positivePattern ''!./'' = ''./''"
    and p6: "positivePattern ''!**'' = ''**''"
    by (simp_all add: positivePattern_def startsWithBang_def)
  have n: "validatePattern ''!**'' None \<noteq> []"
    using validatePattern_default_rules [of "''!**''"] unfolding p6 by fastforce
  have m: "\<lparr>glob = ''**'', error = ''contains a leading wildcard''\<rparr>
             \<in> set (validatePattern ''!**'' None)"
    using validatePattern_default_rules [of "''!**''"] unfolding p6 by simp
  have ex: "\<exists>v \<in> set (validatePattern ''!**'' None). glob v = ''**''"
    by (rule bexI [OF _ m]) simp
  show ?thesis
    using validatePattern_default_rules [of "''!./**/*.js''"]
      validatePattern_default_rules [of "[CHR ''c'', CHR '':'', CHR 0x5C]"]
      validatePattern_default_rules [of "''../filename.js''"]
      validatePattern_default_rules [of "''./(this|that)/**/*.js''"]
      validatePattern_default_rules [of "''!./''"]
      ex n
    unfolding p1 p2 p3 p4 p5 p6 by simp
qed

section \<open>Properties of the matcher and of the filter\<close>

lemma fluidFind_iff: "fluidFind xs f \<longleftrightarrow> (\<exists>x \<in> set xs. f x)"
  by (induction xs) auto

lemma matchesSinglePattern_dir:
  "matchesSinglePattern mm path pat opts True = dirMightMatch path pat"
  by (simp add: matchesSinglePattern_def)

lemma matchesSinglePattern_file:
  "matchesSinglePattern mm path pat opts False =
     mm path pat (case opts of None \<Rightarrow> emptyOptions | Some given \<Rightarrow> given)"
  by (simp add: matchesSinglePattern_def)

lemma allowsPath_iff:
  "allowsPath mm includes excludes opts isDir p \<longleftrightarrow>
     (\<exists>i \<in> set (positivePatterns includes). matchesSinglePattern mm p i opts isDir)
     \<and> ((\<exists>n \<in> set (negativePatterns excludes). matchesSinglePattern mm p n opts isDir)
        \<or> (\<forall>e \<in> set (negativePatterns includes @ positivePatterns excludes).
              \<not> matchesSinglePattern mm p e opts False))"
  unfolding allowsPath_def Let_def fluidFind_iff by auto

lemma filterPaths_Inr:
  "\<forall>p \<in> set dirPaths. statSync fs p \<noteq> None \<Longrightarrow>
     filterPaths fs mm dirPaths includes excludes opts =
       Inr (filter (\<lambda>p. allowsPath mm includes excludes opts
                          (statSync fs p = Some IsDirectory) p) dirPaths)"
  by (induction dirPaths) auto

lemma filterPaths_Inr_set:
  "filterPaths fs mm dirPaths includes excludes opts = Inr allowed \<Longrightarrow>
     allowed = filter (\<lambda>p. allowsPath mm includes excludes opts
                          (statSync fs p = Some IsDirectory) p) dirPaths
     \<and> (\<forall>p \<in> set dirPaths. statSync fs p \<noteq> None)"
  by (induction dirPaths arbitrary: allowed) (auto split: option.splits sum.splits)

text \<open>
  Claim C1: \<open>dirMightMatch\<close> answers true for every directory that is a strict
  ancestor of a file matching the pattern. The code compares the segments of the
  pattern with those of the directory as literal strings and gives a special meaning
  to \<open>**\<close> only, so a pattern with a single-segment wildcard in a directory position
  makes it answer false for the very directory that holds the match. The pattern
  \<open>./*/x.js\<close> passes the default rules and is rooted at \<open>/r\<close> as \<open>/r/*/x.js\<close>;
  the file \<open>/r/a/x.js\<close> matches it, but \<open>dirMightMatch\<close> answers false for the
  directory \<open>/r/a\<close>, and the scan of \<open>/r\<close> prunes it and returns no file.
\<close>

theorem dirMightMatch_misses_wildcard_directory:
  "validatePatternArray [''./*/x.js''] None = []
   \<and> addPathToPatterns ''/'' ''/r'' [''./*/x.js''] = [''/r/*/x.js'']
   \<and> globMatch ''/r/a/x.js'' ''/r/*/x.js'' emptyOptions
   \<and> statSync (sampleTree [''a'', ''b.js'']) ''/r/a/x.js'' = Some IsFile
   \<and> isStrictAncestor ''/r/a'' ''/r/a/x.js''
   \<and> dirMightMatch ''/r/a'' ''/r/*/x.js'' = False
   \<and> scanSingleDir (Suc (Suc 0)) (sampleTree [''a'', ''b.js'']) globMatch ''/'' ''/r''
         [''/r/*/x.js''] [] None = Some (Inr [])"
proof -
  have v: "validatePatternArray [''./*/x.js''] None = []"
    by (simp add: validatePattern_def activeRules_def invalidGlobRules_def positivePattern_def
        startsWithBang_def reLeadingWildcard_def reWindowsSeparator_def reParentDir_def
        reRegexp_def reWholeRoot_def)
  have s: "sanitisePath ''/r'' = ''/r''"
    by (simp add: sanitisePath_def)
  have r: "addPathToPatterns ''/'' ''/r'' [''./*/x.js''] = [''/r/*/x.js'']"
    by (simp add: addPathToPatterns_def s addPathToPattern_def positivePattern_def
        startsWithBang_def posixResolve_def normalizeSegments_def normalizeStep_def)
  have a: "globMatch ''/r/a/x.js'' ''/r/*/x.js'' emptyOptions"
    by (simp add: globMatch_def emptyOptions_def nameMatch_def)
  have f: "statSync (sampleTree [''a'', ''b.js'']) ''/r/a/x.js'' = Some IsFile"
    by (simp add: sampleTree_def)
  have b: "isStrictAncestor ''/r/a'' ''/r/a/x.js''"
    by (simp add: isStrictAncestor_def)
  have c: "dirMightMatch ''/r/a'' ''/r/*/x.js'' = False"
    by (simp add: dirMightMatch_def dirMightMatchLoop.simps segmentAt_def)
  have r1: "posixResolve ''/'' [''/r'', ''a''] = ''/r/a''"
    and r2: "posixResolve ''/'' [''/r'', ''b.js''] = ''/r/b.js''"
    by (simp_all add: posixResolve_def normalizeSegments_def normalizeStep_def)
  have so: "sort [''/r/a'', ''/r/b.js''] = [''/r/a'', ''/r/b.js'']"
    by simp
  have pp: "positivePatterns [''/r/*/x.js''] = [''/r/*/x.js'']"
    by (simp add: positivePatterns_def startsWithBang_def)
  have g: "\<not> globMatch ''/r/b.js'' ''/r/*/x.js'' emptyOptions"
    by (simp add: globMatch_def emptyOptions_def nameMatch_def)
  have n1: "\<not> allowsPath globMatch [''/r/*/x.js''] [] None True ''/r/a''"
    unfolding allowsPath_def Let_def pp using c by (simp add: matchesSinglePattern_def)
  have n2: "\<not> allowsPath globMatch [''/r/*/x.js''] [] None False ''/r/b.js''"
    unfolding allowsPath_def Let_def pp using g by (simp add: matchesSinglePattern_def)
  have d: "scanSingleDir (Suc (Suc 0)) (sampleTree [''a'', ''b.js'']) globMatch ''/'' ''/r''
         [''/r/*/x.js''] [] None = Some (Inr [])"
    by (simp add: sampleTree_def r1 r2 so n1 n2)
  from v r a f b c d show ?thesis by simp
qed

text \<open>
  Claim C2, as stated: every exclude-side pattern is matched exactly even when the
  entry is a directory, the relaxed pre-check being applied to positive includes only.
  The code hands \<open>isDir\<close> to the matcher for the negated excludes as well. For the
  directory \<open>/root/src\<close>, the include \<open>/root/src/**/*.js\<close> and the excludes
  \<open>/root/src\<close> and \<open>!/root/src/**/keep.js\<close>, the code rescues the directory through
  the relaxed test of the negated exclude, while exact matching of every exclude-side
  pattern rejects it.
\<close>

theorem negated_exclude_uses_dirMightMatch:
  "allowsPath globMatch [''/root/src/**/*.js''] [''/root/src'', ''!/root/src/**/keep.js'']
      None True ''/root/src''
   \<and> \<not> allowsPath_excludesExact globMatch [''/root/src/**/*.js'']
         [''/root/src'', ''!/root/src/**/keep.js''] None True ''/root/src''
   \<and> filterPaths \<lparr>readdirSync = (\<lambda>d. None), statSync = (\<lambda>p. Some IsDirectory)\<rparr> globMatch
         [''/root/src''] [''/root/src/**/*.js''] [''/root/src'', ''!/root/src/**/keep.js''] None
       = Inr [''/root/src'']"
proof -
  have d1: "dirMightMatch ''/root/src'' ''/root/src/**/*.js''"
    by (simp add: dirMightMatch_def dirMightMatchLoop.simps segmentAt_def)
  have d2: "dirMightMatch ''/root/src'' ''/root/src/**/keep.js''"
    by (simp add: dirMightMatch_def dirMightMatchLoop.simps segmentAt_def)
  have g1: "globMatch ''/root/src'' ''/root/src'' emptyOptions"
    by (simp add: globMatch_def emptyOptions_def nameMatch_def)
  have g2: "\<not> globMatch ''/root/src'' ''/root/src/**/keep.js'' emptyOptions"
    by (simp add: globMatch_def emptyOptions_def nameMatch_def)
  have pp: "positivePatterns [''/root/src/**/*.js''] = [''/root/src/**/*.js'']"
    "negativePatterns [''/root/src/**/*.js''] = []"
    "positivePatterns [''/root/src'', ''!/root/src/**/keep.js''] = [''/root/src'']"
    "negativePatterns [''/root/src'', ''!/root/src/**/keep.js''] = [''/root/src/**/keep.js'']"
    by (simp_all add: positivePatterns_def negativePatterns_def startsWithBang_def)
  have a: "allowsPath globMatch [''/root/src/**/*.js'']
      [''/root/src'', ''!/root/src/**/keep.js''] None True ''/root/src''"
    unfolding allowsPath_def Let_def pp
    by (simp add: matchesSinglePattern_def d1 d2)
  have b: "\<not> allowsPath_excludesExact globMatch [''/root/src/**/*.js'']
         [''/root/src'', ''!/root/src/**/keep.js''] None True ''/root/src''"
    unfolding allowsPath_excludesExact_def pp
    by (simp add: matchesSinglePattern_def d1 g1 g2)
  from a b show ?thesis by simp
qed

text \<open>
  Claim C2, amended: for a directory entry, \<open>filterPaths\<close> applies the relaxed
  might-match test to the positive includes and to the negated excludes, and exact
  file-style matching to the positive excludes and the negated includes. A negated
  exclude can only admit an entry, so a directory is rejected on the exclude side
  only when a positive exclude or a negated include matches it exactly, never merely
  because the prefix of an exclude pattern matches it.
\<close>

theorem filter_directory_matching_modes:
  "allowsPath mm includes excludes opts True dir =
     ((\<exists>i \<in> set (positivePatterns includes). dirMightMatch dir i)
      \<and> ((\<exists>n \<in> set (negativePatterns excludes). dirMightMatch dir n)
         \<or> (\<forall>e \<in> set (negativePatterns includes @ positivePatterns excludes).
               \<not> mm dir e (case opts of None \<Rightarrow> emptyOptions | Some given \<Rightarrow> given))))"
  unfolding allowsPath_iff matchesSinglePattern_dir matchesSinglePattern_file by simp

theorem filter_directory_matching_modes_witness:
  "allowsPath globMatch [''/root/src/**/*.js''] [''/root/src/**/deeper/*.js''] None True
      ''/root/src/deep''
   \<and> (\<exists>i \<in> set (positivePatterns [''/root/src/**/*.js'']). dirMightMatch ''/root/src/deep'' i)
   \<and> dirMightMatch ''/root/src/deep'' ''/root/src/**/deeper/*.js''
   \<and> negativePatterns [''/root/src/**/*.js''] @ positivePatterns [''/root/src/**/deeper/*.js'']
       = [''/root/src/**/deeper/*.js'']
   \<and> \<not> globMatch ''/root/src/deep'' ''/root/src/**/deeper/*.js'' emptyOptions"
proof -
  have d1: "dirMightMatch ''/root/src/deep'' ''/root/src/**/*.js''"
    by (simp add: dirMightMatch_def dirMightMatchLoop.simps segmentAt_def)
  have d2: "dirMightMatch ''/root/src/deep'' ''/root/src/**/deeper/*.js''"
    by (simp add: dirMightMatch_def dirMightMatchLoop.simps segmentAt_def)
  have g: "\<not> globMatch ''/root/src/deep'' ''/root/src/**/deeper/*.js'' emptyOptions"
    by (simp add: globMatch_def emptyOptions_def nameMatch_def)
  have pp: "positivePatterns [''/root/src/**/*.js''] = [''/root/src/**/*.js'']"
    "negativePatterns [''/root/src/**/*.js''] = []"
    "positivePatterns [''/root/src/**/deeper/*.js''] = [''/root/src/**/deeper/*.js'']"
    "negativePatterns [''/root/src/**/deeper/*.js''] = []"
    by (simp_all add: positivePatterns_def negativePatterns_def startsWithBang_def)
  show ?thesis
    using filter_directory_matching_modes [of globMatch "[''/root/src/**/*.js'']"
        "[''/root/src/**/deeper/*.js'']" None "''/root/src/deep''"] d1 d2 g
    unfolding pp by simp
qed

text \<open>
  Claim C3: an entry that matches a positive include and a negated exclude is accepted
  by \<open>filterPaths\<close>, whatever the positive excludes and the negated includes are.
  Matching is the filter's own: the might-match test for a directory, exact matching
  for a file. When every entry can be stat'ed the filter returns a list, and the entry
  is in it.
\<close>

theorem negated_exclude_precedence:
  assumes "singlePath \<in> set dirPaths"
    and "\<forall>p \<in> set dirPaths. statSync fs p \<noteq> None"
    and "\<exists>i \<in> set (positivePatterns includes).
           matchesSinglePattern mm singlePath i opts (statSync fs singlePath = Some IsDirectory)"
    and "\<exists>n \<in> set (negativePatterns excludes).
           matchesSinglePattern mm singlePath n opts (statSync fs singlePath = Some IsDirectory)"
  shows "\<exists>allowed. filterPaths fs mm dirPaths includes excludes opts = Inr allowed
           \<and> singlePath \<in> set allowed"
proof -
  have "allowsPath mm includes excludes opts (statSync fs singlePath = Some IsDirectory) singlePath"
    using assms(3,4) unfolding allowsPath_iff by blast
  with assms(1) filterPaths_Inr [OF assms(2), of mm "includes" excludes opts]
  show ?thesis by simp
qed

theorem negated_exclude_precedence_witness:
  "(\<exists>i \<in> set (positivePatterns [''/root/src/**/*.js'', ''!/root/src/**/deeper/*.js'']).
      matchesSinglePattern globMatch ''/root/src/deep/deeper/deeper-file.js'' i None False)
   \<and> (\<exists>n \<in> set (negativePatterns [''/root/src/deep/**/*.js'', ''!/root/src/**/deeper/*.js'']).
      matchesSinglePattern globMatch ''/root/src/deep/deeper/deeper-file.js'' n None False)
   \<and> globMatch ''/root/src/deep/deeper/deeper-file.js'' ''/root/src/deep/**/*.js'' emptyOptions
   \<and> (\<exists>allowed.
        filterPaths \<lparr>readdirSync = (\<lambda>d. None), statSync = (\<lambda>p. Some IsFile)\<rparr> globMatch
          [''/root/src/deep/deeper/deeper-file.js'']
          [''/root/src/**/*.js'', ''!/root/src/**/deeper/*.js'']
          [''/root/src/deep/**/*.js'', ''!/root/src/**/deeper/*.js''] None = Inr allowed
        \<and> ''/root/src/deep/deeper/deeper-file.js'' \<in> set allowed)"
proof -
  let ?fs = "\<lparr>readdirSync = (\<lambda>d. None), statSync = (\<lambda>p. Some IsFile)\<rparr>"
  let ?p = "''/root/src/deep/deeper/deeper-file.js''"
  have g1: "globMatch ?p ''/root/src/**/*.js'' emptyOptions"
    by (simp add: globMatch_def emptyOptions_def nameMatch_def)
  have g2: "globMatch ?p ''/root/src/**/deeper/*.js'' emptyOptions"
    by (simp add: globMatch_def emptyOptions_def nameMatch_def)
  have g3: "globMatch ?p ''/root/src/deep/**/*.js'' emptyOptions"
    by (simp add: globMatch_def emptyOptions_def nameMatch_def)
  have pp: "positivePatterns [''/root/src/**/*.js'', ''!/root/src/**/deeper/*.js'']
              = [''/root/src/**/*.js'']"
    "negativePatterns [''/root/src/deep/**/*.js'', ''!/root/src/**/deeper/*.js'']
              = [''/root/src/**/deeper/*.js'']"
    by (simp_all add: positivePatterns_def negativePatterns_def startsWithBang_def)
  have h1: "?p \<in> set [?p]" by simp
  have h2: "\<forall>p \<in> set [?p]. statSync ?fs p \<noteq> None" by simp
  have h3: "\<exists>i \<in> set (positivePatterns [''/root/src/**/*.js'', ''!/root/src/**/deeper/*.js'']).
      matchesSinglePattern globMatch ?p i None (statSync ?fs ?p = Some IsDirectory)"
    unfolding pp by (simp add: matchesSinglePattern_def g1)
  have h4: "\<exists>n \<in> set (negativePatterns [''/root/src/deep/**/*.js'', ''!/root/src/**/deeper/*.js'']).
      matchesSinglePattern globMatch ?p n None (statSync ?fs ?p = Some IsDirectory)"
    unfolding pp by (simp add: matchesSinglePattern_def g2)
  from negated_exclude_precedence [OF h1 h2 h3 h4] h3 h4 g3
  show ?thesis by simp
qed

text \<open>
  Claim C10, as stated: since \<open>matchesSinglePattern\<close> ignores the options for a
  directory, options such as \<open>matchBase\<close> never influence which directories are
  recursed into. The first part holds; the conclusion does not, because the filter
  matches the positive excludes and the negated includes exactly, with the options,
  for directories too. With the include \<open>/root/src/**/*.js\<close> and the exclude \<open>deep\<close>,
  the directory \<open>/root/src/deep\<close> is kept without \<open>matchBase\<close> and dropped with it.
\<close>

theorem options_influence_directory_filtering:
  "filterPaths \<lparr>readdirSync = (\<lambda>d. None), statSync = (\<lambda>p. Some IsDirectory)\<rparr> globMatch
      [''/root/src/deep''] [''/root/src/**/*.js''] [''deep'']
      (Some \<lparr>dot = False, matchBase = False\<rparr>) = Inr [''/root/src/deep'']
   \<and> filterPaths \<lparr>readdirSync = (\<lambda>d. None), statSync = (\<lambda>p. Some IsDirectory)\<rparr> globMatch
      [''/root/src/deep''] [''/root/src/**/*.js''] [''deep'']
      (Some \<lparr>dot = False, matchBase = True\<rparr>) = Inr []"
proof -
  have d1: "dirMightMatch ''/root/src/deep'' ''/root/src/**/*.js''"
    by (simp add: dirMightMatch_def dirMightMatchLoop.simps segmentAt_def)
  have g1: "\<not> globMatch ''/root/src/deep'' ''deep'' \<lparr>dot = False, matchBase = False\<rparr>"
    by (simp add: globMatch_def nameMatch_def)
  have g2: "globMatch ''/root/src/deep'' ''deep'' \<lparr>dot = False, matchBase = True\<rparr>"
    by (simp add: globMatch_def nameMatch_def)
  have pp: "positivePatterns [''/root/src/**/*.js''] = [''/root/src/**/*.js'']"
    "negativePatterns [''/root/src/**/*.js''] = []"
    "positivePatterns [''deep''] = [''deep'']"
    "negativePatterns [''deep''] = []"
    by (simp_all add: positivePatterns_def negativePatterns_def startsWithBang_def)
  have a: "allowsPath globMatch [''/root/src/**/*.js''] [''deep'']
             (Some \<lparr>dot = False, matchBase = False\<rparr>) True ''/root/src/deep''"
    unfolding allowsPath_def Let_def pp by (simp add: matchesSinglePattern_def d1 g1)
  have b: "\<not> allowsPath globMatch [''/root/src/**/*.js''] [''deep'']
             (Some \<lparr>dot = False, matchBase = True\<rparr>) True ''/root/src/deep''"
    unfolding allowsPath_def Let_def pp by (simp add: matchesSinglePattern_def d1 g2)
  from a b show ?thesis by simp
qed

text \<open>
  Claim C10, amended: when \<open>isDir\<close> is true, \<open>matchesSinglePattern\<close> ignores the
  matcher options (and the matcher): for any two option arguments it returns what
  \<open>dirMightMatch\<close> returns. Hence the options never influence the relaxed tests of a
  directory against positive includes and negated excludes; when there is neither a
  negated include nor a positive exclude, the filter's decision for a directory does
  not depend on the options at all. Positive excludes and negated includes are still
  matched exactly, with the options, against directories.
\<close>

theorem matchesSinglePattern_dir_ignores_options:
  "matchesSinglePattern mm path pat o1 True = dirMightMatch path pat
   \<and> matchesSinglePattern mm path pat o2 True = dirMightMatch path pat
   \<and> (negativePatterns includes = [] \<and> positivePatterns excludes = [] \<longrightarrow>
        allowsPath mm includes excludes o1 True path = allowsPath mm includes excludes o2 True path)"
  unfolding allowsPath_iff matchesSinglePattern_dir by simp

theorem matchesSinglePattern_dir_ignores_options_witness:
  "negativePatterns [''/root/src/**/*.js''] = [] \<and> positivePatterns [''!/root/x''] = []
   \<and> matchesSinglePattern globMatch ''/root/src'' ''/root/src/**/*.js''
        (Some \<lparr>dot = True, matchBase = True\<rparr>) True
      = matchesSinglePattern globMatch ''/root/src'' ''/root/src/**/*.js'' None True
   \<and> allowsPath globMatch [''/root/src/**/*.js''] [''!/root/x'']
        (Some \<lparr>dot = True, matchBase = True\<rparr>) True ''/root/src''
      = allowsPath globMatch [''/root/src/**/*.js''] [''!/root/x''] None True ''/root/src''"
proof -
  have pp: "negativePatterns [''/root/src/**/*.js''] = []" "positivePatterns [''!/root/x''] = []"
    by (simp_all add: positivePatterns_def negativePatterns_def startsWithBang_def)
  from matchesSinglePattern_dir_ignores_options [of globMatch "''/root/src''"
      "''/root/src/**/*.js''" "Some \<lparr>dot = True, matchBase = True\<rparr>" None
      "[''/root/src/**/*.js'']" "[''!/root/x'']"] pp
  show ?thesis by simp
qed

section \<open>Properties of the entry point and of the scanner\<close>

text \<open>
  Claim C5: when an include or an exclude violates the active rule set, \<open>findFiles\<close>
  logs one line for every violation of both lists, the includes first, each line
  naming the (positive form of the) pattern and the message of the rule, and then
  fails with the one fixed diagnostic. The outcome is stated without the file system,
  the matcher, the root or the fuel: nothing is read and no list of files is returned.
\<close>

theorem findFiles_invalid_patterns:
  assumes "validatePatternArray includes rules \<noteq> [] \<or> validatePatternArray excludes rules \<noteq> []"
  shows "findFiles fuel fs mm cwd resolvePath rootPath includes excludes opts rules =
           (map violationLine
              (validatePatternArray includes rules @ validatePatternArray excludes rules),
            Some (Inl (Fail invalidMessage)))"
  using assms by (auto simp: findFiles_def Let_def logInvalidRuleFeedback_def)

theorem findFiles_invalid_patterns_witness:
  "validatePatternArray [''**''] None = [\<lparr>glob = ''**'', error = ''contains a leading wildcard''\<rparr>]
   \<and> validatePatternArray [''!./**''] None
       = [\<lparr>glob = ''./**'', error = ''contains a leading wildcard''\<rparr>]
   \<and> findFiles 0 \<lparr>readdirSync = (\<lambda>d. None), statSync = (\<lambda>p. None)\<rparr> globMatch ''/''
        (\<lambda>r. r) ''/root'' [''**''] [''!./**''] None None
       = ([''ERROR: Pattern '' @ [CHR 0x27] @ ''**'' @ [CHR 0x27] @ '' contains a leading wildcard.'',
           ''ERROR: Pattern '' @ [CHR 0x27] @ ''./**'' @ [CHR 0x27] @ '' contains a leading wildcard.''],
          Some (Inl (Fail invalidMessage)))"
proof -
  have a: "validatePatternArray [''**''] None
             = [\<lparr>glob = ''**'', error = ''contains a leading wildcard''\<rparr>]"
    by (simp add: validatePattern_def activeRules_def invalidGlobRules_def positivePattern_def
        startsWithBang_def reLeadingWildcard_def reWindowsSeparator_def reParentDir_def
        reRegexp_def reWholeRoot_def)
  have b: "validatePatternArray [''!./**''] None
             = [\<lparr>glob = ''./**'', error = ''contains a leading wildcard''\<rparr>]"
    by (simp add: validatePattern_def activeRules_def invalidGlobRules_def positivePattern_def
        startsWithBang_def reLeadingWildcard_def reWindowsSeparator_def reParentDir_def
        reRegexp_def reWholeRoot_def)
  have h: "validatePatternArray [''**''] None \<noteq> [] \<or> validatePatternArray [''!./**''] None \<noteq> []"
    unfolding a by simp
  from findFiles_invalid_patterns [OF h] a b
  show ?thesis by (simp add: violationLine_def)
qed

lemma allowsPath_no_positive_include:
  "positivePatterns includes = [] \<Longrightarrow> \<not> allowsPath mm includes excludes opts isDir p"
  by (simp add: allowsPath_iff)

lemma filterPaths_no_positive_include:
  assumes "positivePatterns includes = []"
  shows "filterPaths fs mm dirPaths includes excludes opts = Inr allowed \<Longrightarrow> allowed = []"
  using filterPaths_Inr_set [of fs mm dirPaths "includes" excludes opts allowed]
    allowsPath_no_positive_include [OF assms]
  by simp

lemma startsWithBang_addPathToPattern:
  "startsWithBang pat \<Longrightarrow> startsWithBang (addPathToPattern cwd sroot pat)"
  by (cases pat) (auto simp: addPathToPattern_def Let_def positivePattern_def startsWithBang_def)

lemma positivePatterns_addPathToPatterns:
  "positivePatterns patterns = [] \<Longrightarrow> positivePatterns (addPathToPatterns cwd root patterns) = []"
  by (auto simp: positivePatterns_def addPathToPatterns_def Let_def filter_empty_conv
      intro: startsWithBang_addPathToPattern)

lemma scanSingleDir_no_positive_include:
  assumes "positivePatterns includes = []"
  shows "scanSingleDir (Suc fuel) fs mm cwd dirPath includes excludes opts =
           (case readdirSync fs dirPath of
              None \<Rightarrow> Some (Inl (ReaddirFailed dirPath))
            | Some names \<Rightarrow>
                (case filterPaths fs mm
                        (sort (map (\<lambda>subPath. posixResolve cwd [dirPath, subPath]) names))
                        includes excludes opts of
                   Inl e \<Rightarrow> Some (Inl e)
                 | Inr allowed \<Rightarrow> Some (Inr [])))"
  by (auto split: option.splits sum.splits dest!: filterPaths_no_positive_include [OF assms])

text \<open>
  Claim C4: when the includes hold no positive pattern, the filter accepts no entry and
  the scan yields no file, whatever the excludes (negated or not) and whatever the
  file system holds. One level of recursion suffices, so the scan returns: it is the
  empty list when the directory can be listed and its entries stat'ed, and the
  failure of that call otherwise. Rooting keeps negated patterns negated, so the same
  holds of \<open>findFiles\<close>.
\<close>

theorem no_positive_include_empty_result:
  assumes "positivePatterns includes = []"
  shows "(\<forall>allowed. filterPaths fs mm dirPaths includes excludes opts = Inr allowed
            \<longrightarrow> allowed = [])
       \<and> scanSingleDir (Suc fuel) fs mm cwd dirPath includes excludes opts \<noteq> None
       \<and> (\<forall>out. scanSingleDir (Suc fuel) fs mm cwd dirPath includes excludes opts = Some (Inr out)
            \<longrightarrow> out = [])
       \<and> (\<forall>names. readdirSync fs dirPath = Some names
              \<and> (\<forall>n \<in> set names. statSync fs (posixResolve cwd [dirPath, n]) \<noteq> None)
            \<longrightarrow> scanSingleDir (Suc fuel) fs mm cwd dirPath includes excludes opts = Some (Inr []))
       \<and> (\<forall>log out. findFiles (Suc fuel) fs mm cwd resolvePath rootPath includes excludes opts rules
                      = (log, Some (Inr out))
            \<longrightarrow> out = [])"
proof -
  note scan = scanSingleDir_no_positive_include [OF assms]
  have a: "\<forall>allowed. filterPaths fs mm dirPaths includes excludes opts = Inr allowed
            \<longrightarrow> allowed = []"
    using filterPaths_no_positive_include [OF assms] by blast
  have b: "scanSingleDir (Suc fuel) fs mm cwd dirPath includes excludes opts \<noteq> None"
    unfolding scan by (simp split: option.splits sum.splits)
  have c: "\<forall>out. scanSingleDir (Suc fuel) fs mm cwd dirPath includes excludes opts = Some (Inr out)
            \<longrightarrow> out = []"
    unfolding scan by (auto split: option.splits sum.splits)
  have d: "\<forall>names. readdirSync fs dirPath = Some names
              \<and> (\<forall>n \<in> set names. statSync fs (posixResolve cwd [dirPath, n]) \<noteq> None)
            \<longrightarrow> scanSingleDir (Suc fuel) fs mm cwd dirPath includes excludes opts = Some (Inr [])"
  proof (intro allI impI, elim conjE)
    fix names
    assume r: "readdirSync fs dirPath = Some names"
      and s: "\<forall>n \<in> set names. statSync fs (posixResolve cwd [dirPath, n]) \<noteq> None"
    let ?ps = "sort (map (\<lambda>subPath. posixResolve cwd [dirPath, subPath]) names)"
    have "\<forall>p \<in> set ?ps. statSync fs p \<noteq> None" using s by auto
    from filterPaths_Inr [OF this, of mm "includes" excludes opts] r
    show "scanSingleDir (Suc fuel) fs mm cwd dirPath includes excludes opts = Some (Inr [])"
      unfolding scan by simp
  qed
  have e: "\<forall>log out. findFiles (Suc fuel) fs mm cwd resolvePath rootPath includes excludes opts rules
                      = (log, Some (Inr out))
            \<longrightarrow> out = []"
  proof (intro allI impI)
    fix log out
    assume f: "findFiles (Suc fuel) fs mm cwd resolvePath rootPath includes excludes opts rules
                 = (log, Some (Inr out))"
    let ?root = "sanitisePath (resolvePath rootPath)"
    have pos: "positivePatterns (addPathToPatterns cwd ?root includes) = []"
      using assms by (rule positivePatterns_addPathToPatterns)
    from f have "scanSingleDir (Suc fuel) fs mm cwd ?root (addPathToPatterns cwd ?root includes)
                   (addPathToPatterns cwd ?root excludes) opts = Some (Inr out)"
      by (auto simp: findFiles_def Let_def split: if_splits)
    then show "out = []"
      unfolding scanSingleDir_no_positive_include [OF pos]
      by (auto split: option.splits sum.splits)
  qed
  from a b c d e show ?thesis by blast
qed

theorem no_positive_include_empty_result_witness:
  "positivePatterns [''!/root/old/*.js''] = []
   \<and> filterPaths \<lparr>readdirSync = (\<lambda>d. if d = ''/root'' then Some [''a.js''] else None),
                   statSync = (\<lambda>p. if p = ''/root/a.js'' then Some IsFile else None)\<rparr>
         globMatch [''/root/a.js''] [''!/root/old/*.js''] [''!/root/*.js''] None = Inr []
   \<and> scanSingleDir (Suc 0)
         \<lparr>readdirSync = (\<lambda>d. if d = ''/root'' then Some [''a.js''] else None),
          statSync = (\<lambda>p. if p = ''/root/a.js'' then Some IsFile else None)\<rparr>
         globMatch ''/'' ''/root'' [''!/root/old/*.js''] [''!/root/*.js''] None = Some (Inr [])
   \<and> globMatch ''/root/a.js'' ''/root/*.js'' emptyOptions"
proof -
  let ?fs = "\<lparr>readdirSync = (\<lambda>d. if d = ''/root'' then Some [''a.js''] else None),
              statSync = (\<lambda>p. if p = ''/root/a.js'' then Some IsFile else None)\<rparr>"
  have h: "positivePatterns [''!/root/old/*.js''] = []"
    by (simp add: positivePatterns_def startsWithBang_def)
  have r: "posixResolve ''/'' [''/root'', ''a.js''] = ''/root/a.js''"
    by (simp add: posixResolve_def normalizeSegments_def normalizeStep_def)
  have st: "\<forall>p \<in> set [''/root/a.js'']. statSync ?fs p \<noteq> None" by simp
  have f: "filterPaths ?fs globMatch [''/root/a.js''] [''!/root/old/*.js''] [''!/root/*.js''] None
             = Inr []"
    using no_positive_include_empty_result [OF h, of ?fs globMatch "[''/root/a.js'']"
        "[''!/root/*.js'']" None 0 "''/''" "''/root''" "\<lambda>r. r" "''/root''" None]
      filterPaths_Inr [OF st, of globMatch "[''!/root/old/*.js'']" "[''!/root/*.js'']" None]
    by simp
  have s: "scanSingleDir (Suc 0) ?fs globMatch ''/'' ''/root'' [''!/root/old/*.js'']
             [''!/root/*.js''] None = Some (Inr [])"
    using no_positive_include_empty_result [OF h, of ?fs globMatch "[''/root/a.js'']"
        "[''!/root/*.js'']" None 0 "''/''" "''/root''" "\<lambda>r. r" "''/root''" None] r
    by simp
  have g: "globMatch ''/root/a.js'' ''/root/*.js'' emptyOptions"
    by (simp add: globMatch_def emptyOptions_def nameMatch_def)
  from h f s g show ?thesis by simp
qed

text \<open>
  The fuel only bounds the depth: a scan that returns with some fuel returns the same
  outcome with more.
\<close>

lemma scanEntries_mono:
  assumes "\<And>p r. recurse p = Some r \<Longrightarrow> recurse' p = Some r"
  shows "scanEntries recurse fs ps = Some r \<Longrightarrow> scanEntries recurse' fs ps = Some r"
proof (induction ps arbitrary: r)
  case Nil
  then show ?case by simp
next
  case (Cons p ps)
  show ?case
  proof (cases "statSync fs p")
    case None
    with Cons.prems show ?thesis by simp
  next
    case (Some st)
    show ?thesis
    proof (cases st)
      case IsDirectory
      with Cons.prems Some obtain r1 where r1: "recurse p = Some r1"
        by (auto split: option.splits)
      note r1' = assms [OF r1]
      show ?thesis
      proof (cases r1)
        case (Inl e)
        with Cons.prems Some IsDirectory r1 r1' show ?thesis by auto
      next
        case (Inr sub)
        with Cons.prems Some IsDirectory r1 obtain r2 where
          r2: "scanEntries recurse fs ps = Some r2"
          by (auto split: option.splits)
        from Cons.IH [OF r2] Cons.prems Some IsDirectory r1 r1' Inr r2
        show ?thesis by simp
      qed
    next
      case IsFile
      with Cons.prems Some obtain r2 where r2: "scanEntries recurse fs ps = Some r2"
        by (auto split: option.splits)
      from Cons.IH [OF r2] Cons.prems Some IsFile r2 show ?thesis by simp
    next
      case IsOther
      with Cons.prems Some Cons.IH show ?thesis by simp
    qed
  qed
qed

lemma scanSingleDir_more_fuel:
  "scanSingleDir fuel fs mm cwd dirPath includes excludes opts = Some r \<Longrightarrow>
     scanSingleDir (Suc fuel) fs mm cwd dirPath includes excludes opts = Some r"
proof (induction fuel arbitrary: dirPath r)
  case 0
  then show ?case by simp
next
  case (Suc fuel)
  show ?case
  proof (cases "readdirSync fs dirPath")
    case None
    with Suc.prems show ?thesis by simp
  next
    case (Some names)
    let ?ps = "sort (map (\<lambda>subPath. posixResolve cwd [dirPath, subPath]) names)"
    show ?thesis
    proof (cases "filterPaths fs mm ?ps includes excludes opts")
      case (Inl e)
      with Suc.prems Some show ?thesis by auto
    next
      case (Inr allowed)
      with Suc.prems Some have
        "scanEntries (\<lambda>p. scanSingleDir fuel fs mm cwd p includes excludes opts) fs allowed = Some r"
        by simp
      then have
        "scanEntries (\<lambda>p. scanSingleDir (Suc fuel) fs mm cwd p includes excludes opts) fs allowed
           = Some r"
        by (rule scanEntries_mono [rotated]) (rule Suc.IH)
      with Some Inr show ?thesis by simp
    qed
  qed
qed

lemma scanEntries_files:
  assumes "\<And>p sub. recurse p = Some (Inr sub) \<Longrightarrow> \<forall>q \<in> set sub. statSync fs q = Some IsFile"
  shows "scanEntries recurse fs ps = Some (Inr out) \<Longrightarrow> \<forall>q \<in> set out. statSync fs q = Some IsFile"
proof (induction ps arbitrary: out)
  case Nil
  then show ?case by simp
next
  case (Cons p ps)
  from Cons.prems obtain st where st: "statSync fs p = Some st"
    by (auto split: option.splits)
  show ?case
  proof (cases st)
    case IsDirectory
    with Cons.prems st obtain sub more where
      "recurse p = Some (Inr sub)" "scanEntries recurse fs ps = Some (Inr more)" "out = sub @ more"
      by (auto split: option.splits sum.splits)
    with assms Cons.IH show ?thesis by auto
  next
    case IsFile
    with Cons.prems st obtain more where
      "scanEntries recurse fs ps = Some (Inr more)" "out = p # more"
      by (auto split: option.splits sum.splits)
    with st IsFile Cons.IH show ?thesis by auto
  next
    case IsOther
    with Cons.prems st have "scanEntries recurse fs ps = Some (Inr out)" by simp
    with Cons.IH show ?thesis by blast
  qed
qed

lemma scanSingleDir_files:
  "scanSingleDir fuel fs mm cwd dirPath includes excludes opts = Some (Inr out) \<Longrightarrow>
     \<forall>q \<in> set out. statSync fs q = Some IsFile"
proof (induction fuel arbitrary: dirPath out)
  case 0
  then show ?case by simp
next
  case (Suc fuel)
  from Suc.prems obtain allowed where
    "scanEntries (\<lambda>singlePath. scanSingleDir fuel fs mm cwd singlePath includes excludes opts)
       fs allowed = Some (Inr out)"
    by (auto split: option.splits sum.splits)
  then show ?case
    by (rule scanEntries_files [rotated]) (rule Suc.IH)
qed

text \<open>What one allowed entry adds to the result of a scan that returns.\<close>

lemma scanEntries_concat:
  "scanEntries recurse fs ps = Some (Inr out) \<Longrightarrow>
     out = concat (map (\<lambda>p. case statSync fs p of
                              Some IsDirectory \<Rightarrow> (case recurse p of Some (Inr sub) \<Rightarrow> sub | _ \<Rightarrow> [])
                            | Some IsFile \<Rightarrow> [p]
                            | _ \<Rightarrow> []) ps)"
proof (induction ps arbitrary: out)
  case Nil
  then show ?case by simp
next
  case (Cons p ps)
  from Cons.prems obtain st where st: "statSync fs p = Some st"
    by (auto split: option.splits)
  show ?case
  proof (cases st)
    case IsDirectory
    with Cons.prems st obtain sub more where
      "recurse p = Some (Inr sub)" "scanEntries recurse fs ps = Some (Inr more)" "out = sub @ more"
      by (auto split: option.splits sum.splits)
    with st IsDirectory Cons.IH [of more] show ?thesis by simp
  next
    case IsFile
    with Cons.prems st obtain more where
      "scanEntries recurse fs ps = Some (Inr more)" "out = p # more"
      by (auto split: option.splits sum.splits)
    with st IsFile Cons.IH [of more] show ?thesis by simp
  next
    case IsOther
    with Cons.prems st have "scanEntries recurse fs ps = Some (Inr out)" by simp
    with st IsOther Cons.IH [of out] show ?thesis by simp
  qed
qed

lemma filterPaths_statSync_only:
  "statSync fs' = statSync fs \<Longrightarrow>
     filterPaths fs' mm ps includes excludes opts = filterPaths fs mm ps includes excludes opts"
  by (induction ps) (simp_all cong: option.case_cong sum.case_cong)

lemma scanEntries_cong_weak:
  "statSync fs' = statSync fs \<Longrightarrow> (\<And>p. recurse' p = recurse p) \<Longrightarrow>
     scanEntries recurse' fs' ps = scanEntries recurse fs ps"
  by (induction ps) (simp_all cong: option.case_cong sum.case_cong if_cong)

lemma sort_cong_mset: "mset xs = mset ys \<Longrightarrow> sort xs = sort (ys :: 'a :: linorder list)"
  by (rule properties_for_sort) simp_all

lemma scanSingleDir_listing_order:
  assumes st: "statSync fs' = statSync fs"
    and rd: "\<forall>d. map_option mset (readdirSync fs' d) = map_option mset (readdirSync fs d)"
  shows "scanSingleDir fuel fs' mm cwd dirPath includes excludes opts =
         scanSingleDir fuel fs mm cwd dirPath includes excludes opts"
proof (induction fuel arbitrary: dirPath)
  case 0
  show ?case by simp
next
  case (Suc fuel)
  show ?case
  proof (cases "readdirSync fs dirPath")
    case None
    with rd [rule_format, of dirPath] have "readdirSync fs' dirPath = None" by simp
    with None show ?thesis by simp
  next
    case (Some names)
    with rd [rule_format, of dirPath] obtain names' where
      n': "readdirSync fs' dirPath = Some names'" and m: "mset names' = mset names"
      by (cases "readdirSync fs' dirPath") auto
    have s: "sort (map (\<lambda>subPath. posixResolve cwd [dirPath, subPath]) names')
           = sort (map (\<lambda>subPath. posixResolve cwd [dirPath, subPath]) names)"
      by (rule sort_cong_mset) (simp add: m)
    have e: "\<And>ps. scanEntries (\<lambda>p. scanSingleDir fuel fs' mm cwd p includes excludes opts) fs' ps
               = scanEntries (\<lambda>p. scanSingleDir fuel fs mm cwd p includes excludes opts) fs ps"
      by (rule scanEntries_cong_weak [OF st]) (rule Suc.IH)
    show ?thesis
      by (simp add: Some n' s filterPaths_statSync_only [OF st] e cong: sum.case_cong)
  qed
qed

text \<open>
  Claim C9: every path that \<open>scanSingleDir\<close>, and hence \<open>findFiles\<close>, returns is a file.
  At each level the entries are processed in ascending order: the result is the
  concatenation, over the allowed entries of the sorted listing, of what each entry
  contributes (the file itself, or the files found beneath the directory). The
  result therefore does not depend on the order in which the file system lists the
  entries of a directory: a file system that differs only in that order gives the
  same list in the same order.
\<close>

theorem scan_returns_files_in_sorted_order:
  assumes scan: "scanSingleDir (Suc fuel) fs mm cwd dirPath includes excludes opts = Some (Inr out)"
    and st: "statSync fs' = statSync fs"
    and rd: "\<forall>d. map_option mset (readdirSync fs' d) = map_option mset (readdirSync fs d)"
  shows "(\<forall>p \<in> set out. statSync fs p = Some IsFile)
       \<and> (\<exists>names allowed.
            readdirSync fs dirPath = Some names
            \<and> filterPaths fs mm (sort (map (\<lambda>subPath. posixResolve cwd [dirPath, subPath]) names))
                 includes excludes opts = Inr allowed
            \<and> sorted allowed
            \<and> out = concat (map (\<lambda>p. case statSync fs p of
                       Some IsDirectory \<Rightarrow>
                         (case scanSingleDir fuel fs mm cwd p includes excludes opts of
                            Some (Inr sub) \<Rightarrow> sub | _ \<Rightarrow> [])
                     | Some IsFile \<Rightarrow> [p]
                     | _ \<Rightarrow> []) allowed))
       \<and> scanSingleDir (Suc fuel) fs' mm cwd dirPath includes excludes opts = Some (Inr out)
       \<and> (\<forall>log res. findFiles n fs mm cwd resolvePath rootPath includes excludes opts rules
                       = (log, Some (Inr res))
            \<longrightarrow> (\<forall>p \<in> set res. statSync fs p = Some IsFile))"
proof -
  have a: "\<forall>p \<in> set out. statSync fs p = Some IsFile"
    using scan by (rule scanSingleDir_files)
  from scan obtain names allowed where
    n: "readdirSync fs dirPath = Some names"
    and f: "filterPaths fs mm (sort (map (\<lambda>subPath. posixResolve cwd [dirPath, subPath]) names))
              includes excludes opts = Inr allowed"
    and e: "scanEntries (\<lambda>p. scanSingleDir fuel fs mm cwd p includes excludes opts) fs allowed
              = Some (Inr out)"
    by (auto split: option.splits sum.splits)
  have sf: "\<And>P (xs :: string list). sorted xs \<Longrightarrow> sorted (filter P xs)"
    using sorted_filter [of "\<lambda>x. x"] by simp
  have "sorted allowed"
    using filterPaths_Inr_set [OF f] by (simp add: sf)
  with n f scanEntries_concat [OF e]
  have b: "\<exists>names allowed.
            readdirSync fs dirPath = Some names
            \<and> filterPaths fs mm (sort (map (\<lambda>subPath. posixResolve cwd [dirPath, subPath]) names))
                 includes excludes opts = Inr allowed
            \<and> sorted allowed
            \<and> out = concat (map (\<lambda>p. case statSync fs p of
                       Some IsDirectory \<Rightarrow>
                         (case scanSingleDir fuel fs mm cwd p includes excludes opts of
                            Some (Inr sub) \<Rightarrow> sub | _ \<Rightarrow> [])
                     | Some IsFile \<Rightarrow> [p]
                     | _ \<Rightarrow> []) allowed)"
    by blast
  have c: "scanSingleDir (Suc fuel) fs' mm cwd dirPath includes excludes opts = Some (Inr out)"
    using scanSingleDir_listing_order [OF st rd] scan by simp
  have d: "\<forall>log res. findFiles n fs mm cwd resolvePath rootPath includes excludes opts rules
                       = (log, Some (Inr res))
            \<longrightarrow> (\<forall>p \<in> set res. statSync fs p = Some IsFile)"
    by (auto simp: findFiles_def Let_def split: if_splits dest!: scanSingleDir_files)
  from a b c d show ?thesis by blast
qed

theorem scan_returns_files_in_sorted_order_witness:
  "scanSingleDir (Suc (Suc 0)) (sampleTree [''b.js'', ''a'']) globMatch ''/'' ''/r''
      [''/r/**/*.js''] [] None = Some (Inr [''/r/a/x.js'', ''/r/b.js''])
   \<and> scanSingleDir (Suc (Suc 0)) (sampleTree [''a'', ''b.js'']) globMatch ''/'' ''/r''
      [''/r/**/*.js''] [] None = Some (Inr [''/r/a/x.js'', ''/r/b.js''])
   \<and> statSync (sampleTree [''b.js'', ''a'']) ''/r/a/x.js'' = Some IsFile
   \<and> statSync (sampleTree [''b.js'', ''a'']) ''/r/b.js'' = Some IsFile
   \<and> statSync (sampleTree [''b.js'', ''a'']) ''/r/a'' = Some IsDirectory"
proof -
  let ?fs = "sampleTree [''b.js'', ''a'']"
  let ?fs' = "sampleTree [''a'', ''b.js'']"
  have r1: "posixResolve ''/'' [''/r'', ''b.js''] = ''/r/b.js''"
    and r2: "posixResolve ''/'' [''/r'', ''a''] = ''/r/a''"
    and r3: "posixResolve ''/'' [''/r/a'', ''x.js''] = ''/r/a/x.js''"
    by (simp_all add: posixResolve_def normalizeSegments_def normalizeStep_def)
  have so: "sort [''/r/b.js'', ''/r/a''] = [''/r/a'', ''/r/b.js'']"
    by simp
  have pp: "positivePatterns [''/r/**/*.js''] = [''/r/**/*.js'']"
    "negativePatterns [''/r/**/*.js''] = []" "positivePatterns [] = []" "negativePatterns [] = []"
    by (simp_all add: positivePatterns_def negativePatterns_def startsWithBang_def)
  have d1: "dirMightMatch ''/r/a'' ''/r/**/*.js''"
    by (simp add: dirMightMatch_def dirMightMatchLoop.simps segmentAt_def)
  have g1: "globMatch ''/r/b.js'' ''/r/**/*.js'' emptyOptions"
    by (simp add: globMatch_def emptyOptions_def nameMatch_def)
  have g2: "globMatch ''/r/a/x.js'' ''/r/**/*.js'' emptyOptions"
    by (simp add: globMatch_def emptyOptions_def nameMatch_def)
  have a1: "allowsPath globMatch [''/r/**/*.js''] [] None True ''/r/a''"
    unfolding allowsPath_def Let_def pp by (simp add: matchesSinglePattern_def d1)
  have a2: "allowsPath globMatch [''/r/**/*.js''] [] None False ''/r/b.js''"
    unfolding allowsPath_def Let_def pp by (simp add: matchesSinglePattern_def g1)
  have a3: "allowsPath globMatch [''/r/**/*.js''] [] None False ''/r/a/x.js''"
    unfolding allowsPath_def Let_def pp by (simp add: matchesSinglePattern_def g2)
  have inner: "scanSingleDir (Suc 0) ?fs globMatch ''/'' ''/r/a'' [''/r/**/*.js''] [] None
                 = Some (Inr [''/r/a/x.js''])"
    by (simp add: sampleTree_def r3 a3)
  have scan: "scanSingleDir (Suc (Suc 0)) ?fs globMatch ''/'' ''/r'' [''/r/**/*.js''] [] None
                = Some (Inr [''/r/a/x.js'', ''/r/b.js''])"
    using inner by (simp add: sampleTree_def r1 r2 so a1 a2 del: scanSingleDir.simps(2))
        (simp add: sampleTree_def r1 r2 so a1 a2)
  have st: "statSync ?fs' = statSync ?fs"
    by (simp add: sampleTree_def)
  have rd: "\<forall>d. map_option mset (readdirSync ?fs' d) = map_option mset (readdirSync ?fs d)"
    by (simp add: sampleTree_def)
  from scan_returns_files_in_sorted_order [OF scan st rd] scan
  show ?thesis by (simp add: sampleTree_def)
qed

section \<open>Properties of path rooting\<close>

lemma splitSep_not_Nil: "splitSep c s \<noteq> []"
  by (induction s) (auto split: list.splits)

lemma splitSep_append: "splitSep c (a @ c # b) = splitSep c a @ splitSep c b"
proof (induction a)
  case Nil
  show ?case by simp
next
  case (Cons x a)
  show ?case
  proof (cases "x = c")
    case True
    with Cons show ?thesis by simp
  next
    case False
    obtain s ss where sp: "splitSep c a = s # ss"
      using splitSep_not_Nil [of c a] by (cases "splitSep c a") auto
    with False Cons show ?thesis by simp
  qed
qed

lemma joinSep_Cons: "ss \<noteq> [] \<Longrightarrow> joinSep c (s # ss) = s @ c # joinSep c ss"
  by (cases ss) auto

lemma joinSep_splitSep: "joinSep c (splitSep c s) = s"
proof (induction s)
  case Nil
  show ?case by simp
next
  case (Cons x s)
  obtain t ts where sp: "splitSep c s = t # ts"
    using splitSep_not_Nil [of c s] by (cases "splitSep c s") auto
  show ?case
  proof (cases "x = c")
    case True
    with Cons sp show ?thesis by (simp add: joinSep_Cons)
  next
    case False
    with Cons sp show ?thesis by (cases ts) auto
  qed
qed

lemma splitSep_no_sep: "seg \<in> set (splitSep c s) \<Longrightarrow> c \<notin> set seg"
proof (induction s arbitrary: seg)
  case Nil
  then show ?case by simp
next
  case (Cons x s)
  obtain t ts where sp: "splitSep c s = t # ts"
    using splitSep_not_Nil [of c s] by (cases "splitSep c s") auto
  with Cons show ?case by (cases "x = c") auto
qed

lemma splitSep_single: "c \<notin> set s \<Longrightarrow> splitSep c s = [s]"
  by (induction s) auto

lemma splitSep_length: "1 < length (splitSep c s) \<longleftrightarrow> c \<in> set s"
proof (induction s)
  case Nil
  show ?case by simp
next
  case (Cons x s)
  obtain t ts where sp: "splitSep c s = t # ts"
    using splitSep_not_Nil [of c s] by (cases "splitSep c s") auto
  with Cons show ?case by (cases "x = c") auto
qed

lemma splitSep_hd_empty: "s \<noteq> [] \<Longrightarrow> hd (splitSep c s) = [] \<longleftrightarrow> hd s = c"
proof (cases s)
  case Nil
  then show "s \<noteq> [] \<Longrightarrow> ?thesis" by simp
next
  case (Cons x xs)
  obtain t ts where sp: "splitSep c xs = t # ts"
    using splitSep_not_Nil [of c xs] by (cases "splitSep c xs") auto
  with Cons show ?thesis by simp
qed

lemma positivePattern_changed: "positivePattern pat \<noteq> pat \<longleftrightarrow> startsWithBang pat"
proof (cases "startsWithBang pat")
  case True
  then have "length (drop 1 pat) < length pat"
    by (cases pat) (auto simp: startsWithBang_def)
  then have "length (drop 1 pat) \<noteq> length pat" by linarith
  then have "drop 1 pat \<noteq> pat" by metis
  with True show ?thesis by (simp add: positivePattern_def)
next
  case False
  then show ?thesis by (simp add: positivePattern_def)
qed

lemma resolveCollect_absolute:
  "prefix ''/'' cwd \<Longrightarrow> snd (resolveCollect cwd ps acc)"
  by (induction ps arbitrary: acc) auto

lemma posixResolve_absolute: "prefix ''/'' cwd \<Longrightarrow> prefix ''/'' (posixResolve cwd args)"
  using resolveCollect_absolute [of cwd "rev args" "[]"]
  by (auto simp: posixResolve_def Let_def split: prod.splits)

lemma splitSep_joinSep:
  "xs \<noteq> [] \<Longrightarrow> \<forall>s \<in> set xs. c \<notin> set s \<Longrightarrow> splitSep c (joinSep c xs) = xs"
proof (induction c xs rule: joinSep.induct)
  case (1 c)
  then show ?case by simp
next
  case (2 c s)
  then show ?case by (simp add: splitSep_single)
next
  case (3 c s t ss)
  then have "splitSep c (joinSep c (t # ss)) = t # ss" by simp
  moreover have "splitSep c s = [s]" using 3 by (simp add: splitSep_single)
  ultimately show ?case
    using splitSep_append [of c s "joinSep c (t # ss)"] by simp
qed

lemma normalizeStep_keeps_parent:
  "''..'' \<in> set res \<Longrightarrow> ''..'' \<in> set (normalizeStep True res seg)"
  by (cases res) (auto simp: normalizeStep_def)

lemma foldl_normalizeStep_relative:
  "''..'' \<notin> set (foldl (normalizeStep True) [] segs) \<Longrightarrow>
     foldl (normalizeStep False) st segs = foldl (normalizeStep True) [] segs @ st"
proof (induction segs rule: rev_induct)
  case Nil
  show ?case by simp
next
  case (snoc x segs)
  let ?r = "foldl (normalizeStep True) [] segs"
  from snoc.prems have np: "''..'' \<notin> set (normalizeStep True ?r x)" by simp
  then have "''..'' \<notin> set ?r" using normalizeStep_keeps_parent by blast
  then have ih: "foldl (normalizeStep False) st segs = ?r @ st" by (rule snoc.IH)
  have "normalizeStep False (?r @ st) x = normalizeStep True ?r x @ st"
    using np by (cases ?r) (auto simp: normalizeStep_def split: if_splits)
  with ih show ?case by simp
qed

lemma normalizeSegments_append_relative:
  "''..'' \<notin> set (normalizeSegments True segs) \<Longrightarrow>
     normalizeSegments False (root @ segs) =
       normalizeSegments False root @ normalizeSegments True segs"
  by (simp add: normalizeSegments_def foldl_normalizeStep_relative)

lemma normalizeSegments_trailing_empty:
  "normalizeSegments b (segs @ [[]]) = normalizeSegments b segs"
  by (simp add: normalizeSegments_def normalizeStep_def)

lemma normalizeStep_subset:
  "set (normalizeStep b st x) \<subseteq> (if x = [] then {} else {x}) \<union> {''..''} \<union> set st"
proof (cases "x = [] \<or> x = ''.''")
  case True
  then show ?thesis unfolding normalizeStep_def by (simp only: if_True) blast
next
  case False
  note nf = this
  show ?thesis
  proof (cases "x = ''..''")
    case True
    show ?thesis
    proof (cases st)
      case Nil
      with nf True show ?thesis unfolding normalizeStep_def by (cases b) simp_all
    next
      case (Cons t ts)
      with nf True show ?thesis unfolding normalizeStep_def
        by (cases b; cases "t = ''..''") (simp_all, blast+)
    qed
  next
    case False
    with nf have "normalizeStep b st x = x # st" unfolding normalizeStep_def by (simp only: if_False)
    with nf show ?thesis by auto
  qed
qed

lemma foldl_normalizeStep_segments:
  "\<forall>s \<in> set st. s \<noteq> [] \<and> CHR ''/'' \<notin> set s \<Longrightarrow> \<forall>s \<in> set segs. CHR ''/'' \<notin> set s \<Longrightarrow>
     \<forall>s \<in> set (foldl (normalizeStep b) st segs). s \<noteq> [] \<and> CHR ''/'' \<notin> set s"
proof (induction segs arbitrary: st)
  case Nil
  then show ?case by simp
next
  case (Cons x segs)
  have x: "CHR ''/'' \<notin> set x" using Cons.prems(2) by simp
  have "\<forall>s \<in> set (normalizeStep b st x). s \<noteq> [] \<and> CHR ''/'' \<notin> set s"
  proof
    fix s assume "s \<in> set (normalizeStep b st x)"
    with normalizeStep_subset [of b st x]
    have "s \<in> (if x = [] then {} else {x}) \<union> {''..''} \<union> set st" by blast
    then consider "s = x" "x \<noteq> []" | "s = ''..''" | "s \<in> set st"
      by (cases "x = []") auto
    then show "s \<noteq> [] \<and> CHR ''/'' \<notin> set s"
    proof cases
      case 1
      with x show ?thesis by simp
    next
      case 2
      then show ?thesis by simp
    next
      case 3
      with Cons.prems(1) show ?thesis by blast
    qed
  qed
  moreover have "\<forall>s \<in> set segs. CHR ''/'' \<notin> set s" using Cons.prems(2) by simp
  ultimately have "\<forall>s \<in> set (foldl (normalizeStep b) (normalizeStep b st x) segs).
                     s \<noteq> [] \<and> CHR ''/'' \<notin> set s"
    by (rule Cons.IH)
  then show ?case by simp
qed

lemma normalizeSegments_splitSep_segments:
  "\<forall>s \<in> set (normalizeSegments b (splitSep CHR ''/'' p)). s \<noteq> [] \<and> CHR ''/'' \<notin> set s"
  unfolding normalizeSegments_def set_rev
  by (rule foldl_normalizeStep_segments) (auto dest: splitSep_no_sep)


lemma addPathToPattern_single_segment:
  "CHR ''/'' \<notin> set (positivePattern pat) \<Longrightarrow> addPathToPattern cwd sroot pat = pat"
  by (simp add: addPathToPattern_def Let_def splitSep_single)

lemma addPathToPattern_multi_segment:
  assumes "CHR ''/'' \<in> set (positivePattern pat)"
  shows "addPathToPattern cwd sroot pat =
           (if startsWithBang pat then ''!'' else [])
           @ posixResolve cwd
               [sroot,
                if splitSep CHR ''/'' (positivePattern pat) ! 0 = []
                then ''/'' @ splitSep CHR ''/'' (positivePattern pat) ! 1
                else splitSep CHR ''/'' (positivePattern pat) ! 0,
                joinSep CHR ''/''
                  (drop (if splitSep CHR ''/'' (positivePattern pat) ! 0 = [] then 2 else 1)
                     (splitSep CHR ''/'' (positivePattern pat)))]"
proof -
  have "1 < length (splitSep CHR ''/'' (positivePattern pat))"
    using assms splitSep_length [of "CHR ''/''" "positivePattern pat"] by simp
  then show ?thesis
    unfolding addPathToPattern_def Let_def positivePattern_changed by simp
qed

lemma addPathToPattern_absolute:
  assumes "CHR ''/'' \<in> set (positivePattern pat)" and "prefix ''/'' cwd"
  shows "startsWithBang (addPathToPattern cwd sroot pat) = startsWithBang pat
         \<and> prefix ''/'' (positivePattern (addPathToPattern cwd sroot pat))"
proof -
  from addPathToPattern_multi_segment [OF assms(1), of cwd sroot]
  obtain first rest where
    r: "addPathToPattern cwd sroot pat =
          (if startsWithBang pat then ''!'' else []) @ posixResolve cwd [sroot, first, rest]"
    by blast
  from posixResolve_absolute [OF assms(2), of "[sroot, first, rest]"]
  obtain t where t: "posixResolve cwd [sroot, first, rest] = CHR ''/'' # t"
    by (auto simp: prefix_def)
  show ?thesis
    unfolding r t by (simp add: startsWithBang_def positivePattern_def)
qed

lemma addPathToPattern_full_path:
  assumes "prefix ''/'' (positivePattern pat)"
  shows "addPathToPattern cwd sroot pat = addPathToPattern cwd' sroot' pat"
proof -
  from assms obtain t where pos: "positivePattern pat = CHR ''/'' # t"
    by (auto simp: prefix_def)
  obtain s ss where sp: "splitSep CHR ''/'' t = s # ss"
    using splitSep_not_Nil [of "CHR ''/''" t] by (cases "splitSep CHR ''/'' t") auto
  have seg: "splitSep CHR ''/'' (positivePattern pat) = [] # s # ss"
    unfolding pos by (simp add: sp)
  show ?thesis
    unfolding addPathToPattern_def Let_def seg posixResolve_def
    by simp
qed

text \<open>The path that \<open>path.posix.resolve\<close> starts from when its first argument is the root.\<close>

lemma resolveCollect_root:
  assumes "prefix ''/'' cwd \<or> prefix ''/'' sroot"
  shows "\<exists>rootRaw. resolveCollect cwd [sroot] [] = (rootRaw @ ''/'', True)
           \<and> resolveCollect cwd [sroot] acc = (rootRaw @ ''/'' @ acc, True)"
proof (cases "sroot = []")
  case True
  with assms have c: "prefix ''/'' cwd" by simp
  then have "cwd \<noteq> []" by auto
  with True c show ?thesis by simp
next
  case False
  show ?thesis
  proof (cases "prefix ''/'' sroot")
    case True
    with False show ?thesis by simp
  next
    case rel: False
    with assms have c: "prefix ''/'' cwd" by simp
    then have "cwd \<noteq> []" by auto
    with False rel c show ?thesis by simp
  qed
qed

lemma posixResolve_root:
  assumes "resolveCollect cwd [sroot] [] = (rootRaw @ ''/'', True)"
  shows "posixResolve cwd [sroot] =
           ''/'' @ joinSep CHR ''/'' (normalizeSegments False (splitSep CHR ''/'' rootRaw))"
proof -
  have "splitSep CHR ''/'' (rootRaw @ ''/'') = splitSep CHR ''/'' rootRaw @ [[]]"
    using splitSep_append [of "CHR ''/''" rootRaw "[]"] by simp
  then show ?thesis
    unfolding posixResolve_def using assms
    by (simp add: Let_def normalizeSegments_trailing_empty)
qed

lemma addPathToPattern_relative:
  assumes multi: "CHR ''/'' \<in> set (positivePattern pat)"
    and rel: "\<not> prefix ''/'' (positivePattern pat)"
    and root: "prefix ''/'' cwd \<or> prefix ''/'' sroot"
    and noclimb: "''..'' \<notin> set (normalizeSegments True (splitSep CHR ''/'' (positivePattern pat)))"
    and rest: "\<not> prefix ''/'' (joinSep CHR ''/'' (drop 1 (splitSep CHR ''/'' (positivePattern pat))))"
  shows "\<exists>rootSegs.
           (\<forall>s \<in> set rootSegs. s \<noteq> [] \<and> CHR ''/'' \<notin> set s)
           \<and> posixResolve cwd [sroot] = ''/'' @ joinSep CHR ''/'' rootSegs
           \<and> addPathToPattern cwd sroot pat =
               (if startsWithBang pat then ''!'' else [])
               @ ''/'' @ joinSep CHR ''/''
                   (rootSegs @ normalizeSegments True (splitSep CHR ''/'' (positivePattern pat)))"
proof -
  let ?pos = "positivePattern pat"
  let ?segs = "splitSep CHR ''/'' ?pos"
  have len: "1 < length ?segs"
    using multi splitSep_length [of "CHR ''/''" ?pos] by simp
  then obtain s0 s1 more where segs: "?segs = s0 # s1 # more"
    by (cases ?segs; cases "tl ?segs") auto
  have pne: "?pos \<noteq> []" using multi by auto
  have "hd ?pos \<noteq> CHR ''/''" using rel pne by (cases ?pos) auto
  with splitSep_hd_empty [OF pne, of "CHR ''/''"] segs have s0: "s0 \<noteq> []" by simp
  have "CHR ''/'' \<notin> set s0"
    by (rule splitSep_no_sep [of _ "CHR ''/''" ?pos]) (simp add: segs)
  then have s0rel: "\<not> prefix ''/'' s0" by (auto simp: prefix_def)
  let ?rest = "joinSep CHR ''/'' (s1 # more)"
  let ?tail = "if ?rest = [] then [] else ''/''"
  have rest': "\<not> prefix ''/'' ?rest" using rest by (simp add: segs)
  have posj: "?pos = s0 @ CHR ''/'' # ?rest"
    using joinSep_splitSep [of "CHR ''/''" ?pos] by (simp add: segs)
  from resolveCollect_root [OF root, of "?pos @ ?tail"] obtain rootRaw where
    c0: "resolveCollect cwd [sroot] [] = (rootRaw @ ''/'', True)"
    and c1: "resolveCollect cwd [sroot] (?pos @ ?tail) = (rootRaw @ ''/'' @ ?pos @ ?tail, True)"
    by blast
  let ?rootSegs = "normalizeSegments False (splitSep CHR ''/'' rootRaw)"
  have collect: "resolveCollect cwd [?rest, s0, sroot] [] = (rootRaw @ ''/'' @ ?pos @ ?tail, True)"
  proof (cases "?rest = []")
    case True
    then have "resolveCollect cwd [?rest, s0, sroot] [] = resolveCollect cwd [sroot] (s0 @ ''/'')"
      using s0 s0rel by simp
    also have "s0 @ ''/'' = ?pos @ ?tail" using True posj by simp
    finally show ?thesis using c1 by simp
  next
    case False
    then have "resolveCollect cwd [?rest, s0, sroot] []
                 = resolveCollect cwd [sroot] (s0 @ ''/'' @ ?rest @ ''/'')"
      using s0 s0rel rest' by simp
    also have "s0 @ ''/'' @ ?rest @ ''/'' = ?pos @ ?tail" using False posj by simp
    finally show ?thesis using c1 by simp
  qed
  have np: "''..'' \<notin> set (normalizeSegments True (?segs @ [[]]))"
    using noclimb by (simp add: normalizeSegments_trailing_empty)
  have split_all: "normalizeSegments False (splitSep CHR ''/'' (rootRaw @ ''/'' @ ?pos @ ?tail))
        = ?rootSegs @ normalizeSegments True ?segs"
  proof (cases "?rest = []")
    case True
    then have e: "splitSep CHR ''/'' (rootRaw @ ''/'' @ ?pos @ ?tail)
                 = splitSep CHR ''/'' rootRaw @ ?segs"
      using splitSep_append [of "CHR ''/''" rootRaw ?pos] by simp
    show ?thesis
      unfolding e by (rule normalizeSegments_append_relative [OF noclimb])
  next
    case False
    have "splitSep CHR ''/'' (?pos @ ''/'') = ?segs @ [[]]"
      using splitSep_append [of "CHR ''/''" ?pos "[]"] by simp
    with False have e: "splitSep CHR ''/'' (rootRaw @ ''/'' @ ?pos @ ?tail)
                 = splitSep CHR ''/'' rootRaw @ (?segs @ [[]])"
      using splitSep_append [of "CHR ''/''" rootRaw "?pos @ ''/''"] by simp
    show ?thesis
      unfolding e normalizeSegments_append_relative [OF np]
      by (simp only: normalizeSegments_trailing_empty)
  qed
  have res: "posixResolve cwd [sroot, s0, ?rest] =
               ''/'' @ joinSep CHR ''/'' (?rootSegs @ normalizeSegments True ?segs)"
    unfolding posixResolve_def using collect split_all by (simp add: Let_def)
  have add: "addPathToPattern cwd sroot pat =
               (if startsWithBang pat then ''!'' else [])
               @ ''/'' @ joinSep CHR ''/'' (?rootSegs @ normalizeSegments True ?segs)"
    unfolding addPathToPattern_def Let_def positivePattern_changed
    using len s0 res by (simp add: segs)
  have seg: "\<forall>s \<in> set ?rootSegs. s \<noteq> [] \<and> CHR ''/'' \<notin> set s"
    by (rule normalizeSegments_splitSep_segments)
  from seg posixResolve_root [OF c0] add show ?thesis by blast
qed

text \<open>
  Claim C7, as stated: every relative pattern of more than one segment is resolved
  beneath the sanitised root. The pattern is handed to \<open>path.posix.resolve\<close>, which
  lets a \<open>..\<close> segment remove the segment before it, and the validator rejects \<open>..\<close>
  at the start of a pattern only: \<open>a/../../b\<close> passes the default rules and, rooted at
  \<open>/root\<close>, becomes \<open>/b\<close>. So does \<open>a//b\<close>, whose remaining segments, joined, begin
  with a separator and are taken by \<open>path.posix.resolve\<close> for an absolute path.
\<close>

theorem addPathToPatterns_escapes_root:
  "validatePattern ''a/../../b'' None = []
   \<and> addPathToPatterns ''/home'' ''/root'' [''a/../../b''] = [''/b'']
   \<and> validatePattern ''a//b'' None = []
   \<and> addPathToPatterns ''/home'' ''/root'' [''a//b''] = [''/b'']
   \<and> \<not> prefix (splitSep CHR ''/'' ''/root'') (splitSep CHR ''/'' ''/b'')"
proof -
  have v: "validatePattern ''a/../../b'' None = []" "validatePattern ''a//b'' None = []"
    by (simp_all add: validatePattern_def activeRules_def invalidGlobRules_def positivePattern_def
        startsWithBang_def reLeadingWildcard_def reWindowsSeparator_def reParentDir_def
        reRegexp_def reWholeRoot_def)
  have s: "sanitisePath ''/root'' = ''/root''"
    by (simp add: sanitisePath_def)
  have a: "addPathToPatterns ''/home'' ''/root'' [''a/../../b''] = [''/b'']"
    by (simp add: addPathToPatterns_def s addPathToPattern_def positivePattern_def
        startsWithBang_def posixResolve_def normalizeSegments_def normalizeStep_def)
  have b: "addPathToPatterns ''/home'' ''/root'' [''a//b''] = [''/b'']"
    by (simp add: addPathToPatterns_def s addPathToPattern_def positivePattern_def
        startsWithBang_def posixResolve_def normalizeSegments_def normalizeStep_def)
  have p: "\<not> prefix (splitSep CHR ''/'' ''/root'') (splitSep CHR ''/'' ''/b'')"
    by simp
  from v a b p show ?thesis by simp
qed

text \<open>
  Claim C7, amended: \<open>addPathToPatterns\<close> rewrites the patterns one by one. A pattern
  whose positive form holds no separator is left unchanged. A pattern whose positive
  form holds a separator is replaced by the path that \<open>path.posix.resolve\<close> gives for
  the sanitised root, the first segment (with the leading separator put back when the
  pattern begins with one) and the remaining segments joined, with the negation
  marker put back: the result is negated exactly when the pattern is, and its positive
  form is an absolute path (the working directory being absolute). When the positive
  form begins with a separator, the result depends neither on the root nor on the
  working directory. When it is relative, its \<open>..\<close> segments do not climb above the
  point it starts from (normalised on its own, the pattern keeps no \<open>..\<close>) and the
  part after the first separator does not begin with a separator, the result lies
  beneath the root: it is the resolved root, absolute or taken from the working
  directory, followed by the normalised segments of the pattern.
\<close>

theorem addPathToPatterns_rooting:
  fixes patterns :: "string list" and cwd rootPath :: string
  assumes i: "i < length patterns"
  defines "pat \<equiv> patterns ! i"
    and "res \<equiv> addPathToPatterns cwd rootPath patterns ! i"
    and "sroot \<equiv> sanitisePath rootPath"
  defines "pos \<equiv> positivePattern pat"
  defines "segs \<equiv> splitSep CHR ''/'' pos"
  shows "length (addPathToPatterns cwd rootPath patterns) = length patterns
       \<and> (CHR ''/'' \<notin> set pos \<longrightarrow> res = pat)
       \<and> (CHR ''/'' \<in> set pos \<longrightarrow>
            res = (if startsWithBang pat then ''!'' else [])
                  @ posixResolve cwd
                      [sroot,
                       if segs ! 0 = [] then ''/'' @ segs ! 1 else segs ! 0,
                       joinSep CHR ''/'' (drop (if segs ! 0 = [] then 2 else 1) segs)])
       \<and> (CHR ''/'' \<in> set pos \<and> prefix ''/'' cwd \<longrightarrow>
            startsWithBang res = startsWithBang pat \<and> prefix ''/'' (positivePattern res))
       \<and> (prefix ''/'' pos \<longrightarrow> res = addPathToPatterns cwd' rootPath' patterns ! i)
       \<and> (CHR ''/'' \<in> set pos \<and> \<not> prefix ''/'' pos
            \<and> (prefix ''/'' cwd \<or> prefix ''/'' sroot)
            \<and> ''..'' \<notin> set (normalizeSegments True segs)
            \<and> \<not> prefix ''/'' (joinSep CHR ''/'' (drop 1 segs))
          \<longrightarrow> (\<exists>rootSegs.
                 (\<forall>s \<in> set rootSegs. s \<noteq> [] \<and> CHR ''/'' \<notin> set s)
                 \<and> posixResolve cwd [sroot] = ''/'' @ joinSep CHR ''/'' rootSegs
                 \<and> res = (if startsWithBang pat then ''!'' else [])
                         @ ''/'' @ joinSep CHR ''/'' (rootSegs @ normalizeSegments True segs)))"
proof -
  have r: "res = addPathToPattern cwd sroot pat"
    using i by (simp add: res_def pat_def sroot_def addPathToPatterns_def Let_def)
  have r': "addPathToPatterns cwd' rootPath' patterns ! i
              = addPathToPattern cwd' (sanitisePath rootPath') pat"
    using i by (simp add: pat_def addPathToPatterns_def Let_def)
  have a: "length (addPathToPatterns cwd rootPath patterns) = length patterns"
    by (simp add: addPathToPatterns_def Let_def)
  have b: "CHR ''/'' \<notin> set pos \<longrightarrow> res = pat"
    unfolding r pos_def by (simp add: addPathToPattern_single_segment)
  have g: "CHR ''/'' \<in> set pos \<longrightarrow>
            res = (if startsWithBang pat then ''!'' else [])
                  @ posixResolve cwd
                      [sroot,
                       if segs ! 0 = [] then ''/'' @ segs ! 1 else segs ! 0,
                       joinSep CHR ''/'' (drop (if segs ! 0 = [] then 2 else 1) segs)]"
    unfolding r segs_def pos_def using addPathToPattern_multi_segment [of pat cwd sroot]
    by blast
  have c: "CHR ''/'' \<in> set pos \<and> prefix ''/'' cwd \<longrightarrow>
            startsWithBang res = startsWithBang pat \<and> prefix ''/'' (positivePattern res)"
    unfolding r pos_def using addPathToPattern_absolute [of pat cwd sroot]
    by blast
  have d: "prefix ''/'' pos \<longrightarrow> res = addPathToPatterns cwd' rootPath' patterns ! i"
    unfolding r r' pos_def
    using addPathToPattern_full_path [of pat cwd sroot cwd' "sanitisePath rootPath'"]
    by blast
  have e: "CHR ''/'' \<in> set pos \<and> \<not> prefix ''/'' pos
            \<and> (prefix ''/'' cwd \<or> prefix ''/'' sroot)
            \<and> ''..'' \<notin> set (normalizeSegments True segs)
            \<and> \<not> prefix ''/'' (joinSep CHR ''/'' (drop 1 segs))
          \<longrightarrow> (\<exists>rootSegs.
                 (\<forall>s \<in> set rootSegs. s \<noteq> [] \<and> CHR ''/'' \<notin> set s)
                 \<and> posixResolve cwd [sroot] = ''/'' @ joinSep CHR ''/'' rootSegs
                 \<and> res = (if startsWithBang pat then ''!'' else [])
                         @ ''/'' @ joinSep CHR ''/'' (rootSegs @ normalizeSegments True segs))"
    unfolding r segs_def pos_def
    using addPathToPattern_relative [of pat cwd sroot]
    by blast
  from a b g c d e show ?thesis by blast
qed

theorem addPathToPatterns_rooting_witness:
  "addPathToPatterns ''/home'' ''/root''
      [''README.md'', ''!./.gitignore'', ''/otherRoot/exclude.js'', ''./src/../filename.js'']
     = [''README.md'', ''!/root/.gitignore'', ''/otherRoot/exclude.js'', ''/root/filename.js'']
   \<and> addPathToPatterns ''/elsewhere'' ''/var''
      [''README.md'', ''!./.gitignore'', ''/otherRoot/exclude.js'', ''./src/../filename.js''] ! 2
     = ''/otherRoot/exclude.js''
   \<and> addPathToPatterns ''/home'' ''rel'' [''a/b''] = [''/home/rel/a/b'']
   \<and> posixResolve ''/home'' [''rel''] = ''/home/rel''
   \<and> CHR ''/'' \<notin> set (positivePattern ''README.md'')
   \<and> CHR ''/'' \<in> set (positivePattern ''!./.gitignore'')
   \<and> prefix ''/'' (positivePattern ''/otherRoot/exclude.js'')
   \<and> ''..'' \<in> set (splitSep CHR ''/'' ''./src/../filename.js'')
   \<and> normalizeSegments True (splitSep CHR ''/'' ''./src/../filename.js'') = [''filename.js'']"
proof -
  let ?ps = "[''README.md'', ''!./.gitignore'', ''/otherRoot/exclude.js'', ''./src/../filename.js'']"
  have pp: "positivePattern ''README.md'' = ''README.md''"
    "positivePattern ''!./.gitignore'' = ''./.gitignore''"
    "positivePattern ''/otherRoot/exclude.js'' = ''/otherRoot/exclude.js''"
    "positivePattern ''./src/../filename.js'' = ''./src/../filename.js''"
    "positivePattern ''a/b'' = ''a/b''"
    by (simp_all add: positivePattern_def startsWithBang_def)
  have sb: "startsWithBang ''!./.gitignore''" "\<not> startsWithBang ''./src/../filename.js''"
    "\<not> startsWithBang ''a/b''" "\<not> startsWithBang ''/otherRoot/exclude.js''"
    by (simp_all add: startsWithBang_def)
  have s: "sanitisePath ''/root'' = ''/root''" "sanitisePath ''/var'' = ''/var''"
    "sanitisePath ''rel'' = ''rel''"
    by (simp_all add: sanitisePath_def)
  have n1: "normalizeSegments True [''.'', ''.gitignore''] = [''.gitignore'']"
    and n3: "normalizeSegments True [''.'', ''src'', ''..'', ''filename.js''] = [''filename.js'']"
    and n4: "normalizeSegments True [''a'', ''b''] = [''a'', ''b'']"
    by (simp_all add: normalizeSegments_def normalizeStep_def)
  have rr: "posixResolve ''/home'' [''/root''] = ''/root''"
    and rl: "posixResolve ''/home'' [''rel''] = ''/home/rel''"
    by (simp_all add: posixResolve_def normalizeSegments_def normalizeStep_def)
  have root_segs: "rootSegs = [''root'']"
    if "\<forall>s \<in> set rootSegs. s \<noteq> [] \<and> CHR ''/'' \<notin> set s"
      and "''/root'' = ''/'' @ joinSep CHR ''/'' rootSegs" for rootSegs
  proof -
    from that(2) have j: "joinSep CHR ''/'' rootSegs = ''root''" by simp
    then have "rootSegs \<noteq> []" by auto
    with that(1) have "splitSep CHR ''/'' (joinSep CHR ''/'' rootSegs) = rootSegs"
      by (simp add: splitSep_joinSep)
    then show ?thesis unfolding j by simp
  qed
  have rel_segs: "rootSegs = [''home'', ''rel'']"
    if "\<forall>s \<in> set rootSegs. s \<noteq> [] \<and> CHR ''/'' \<notin> set s"
      and "''/home/rel'' = ''/'' @ joinSep CHR ''/'' rootSegs" for rootSegs
  proof -
    from that(2) have j: "joinSep CHR ''/'' rootSegs = ''home/rel''" by simp
    then have "rootSegs \<noteq> []" by auto
    with that(1) have "splitSep CHR ''/'' (joinSep CHR ''/'' rootSegs) = rootSegs"
      by (simp add: splitSep_joinSep)
    then show ?thesis unfolding j by simp
  qed
  have e0: "addPathToPatterns ''/home'' ''/root'' ?ps ! 0 = ''README.md''"
    using addPathToPatterns_rooting [of 0 ?ps "''/home''" "''/root''"] by (simp add: pp)
  have e1: "addPathToPatterns ''/home'' ''/root'' ?ps ! 1 = ''!/root/.gitignore''"
  proof -
    from addPathToPatterns_rooting [of 1 ?ps "''/home''" "''/root''"]
    obtain rootSegs where
      "\<forall>s \<in> set rootSegs. s \<noteq> [] \<and> CHR ''/'' \<notin> set s"
      "''/root'' = ''/'' @ joinSep CHR ''/'' rootSegs"
      "addPathToPatterns ''/home'' ''/root'' ?ps ! 1
         = ''!'' @ ''/'' @ joinSep CHR ''/'' (rootSegs @ [''.gitignore''])"
      by (auto simp: pp sb s n1 rr)
    with root_segs [of rootSegs] show ?thesis by simp
  qed
  have e3: "addPathToPatterns ''/home'' ''/root'' ?ps ! 3 = ''/root/filename.js''"
  proof -
    from addPathToPatterns_rooting [of 3 ?ps "''/home''" "''/root''"]
    obtain rootSegs where
      "\<forall>s \<in> set rootSegs. s \<noteq> [] \<and> CHR ''/'' \<notin> set s"
      "''/root'' = ''/'' @ joinSep CHR ''/'' rootSegs"
      "addPathToPatterns ''/home'' ''/root'' ?ps ! 3
         = ''/'' @ joinSep CHR ''/'' (rootSegs @ [''filename.js''])"
      by (auto simp: pp sb s n3 rr)
    with root_segs [of rootSegs] show ?thesis by simp
  qed
  have e2: "addPathToPatterns ''/home'' ''/root'' ?ps ! 2 = ''/otherRoot/exclude.js''"
    using addPathToPatterns_rooting [of 2 ?ps "''/home''" "''/root''"]
    by (simp add: pp sb s posixResolve_def normalizeSegments_def normalizeStep_def)
  have e2': "addPathToPatterns ''/elsewhere'' ''/var'' ?ps ! 2 = ''/otherRoot/exclude.js''"
    using addPathToPatterns_rooting [of 2 ?ps "''/home''" "''/root''" "''/elsewhere''" "''/var''"]
      e2 by (simp add: pp)
  have len: "length (addPathToPatterns ''/home'' ''/root'' ?ps) = 4"
    using addPathToPatterns_rooting [of 0 ?ps "''/home''" "''/root''"] by simp
  have all: "addPathToPatterns ''/home'' ''/root'' ?ps
     = [''README.md'', ''!/root/.gitignore'', ''/otherRoot/exclude.js'', ''/root/filename.js'']"
    using len e0 e1 e2 e3 by (simp add: list_eq_iff_nth_eq less_Suc_eq numeral_eq_Suc)
  have f0: "addPathToPatterns ''/home'' ''rel'' [''a/b''] ! 0 = ''/home/rel/a/b''"
  proof -
    from addPathToPatterns_rooting [of 0 "[''a/b'']" "''/home''" "''rel''"]
    obtain rootSegs where
      "\<forall>s \<in> set rootSegs. s \<noteq> [] \<and> CHR ''/'' \<notin> set s"
      "''/home/rel'' = ''/'' @ joinSep CHR ''/'' rootSegs"
      "addPathToPatterns ''/home'' ''rel'' [''a/b''] ! 0
         = ''/'' @ joinSep CHR ''/'' (rootSegs @ [''a'', ''b''])"
      by (auto simp: pp sb s n4 rl)
    with rel_segs [of rootSegs] show ?thesis by simp
  qed
  have flen: "length (addPathToPatterns ''/home'' ''rel'' [''a/b'']) = 1"
    using addPathToPatterns_rooting [of 0 "[''a/b'']" "''/home''" "''rel''"] by simp
  have fall: "addPathToPatterns ''/home'' ''rel'' [''a/b''] = [''/home/rel/a/b'']"
    using flen f0 by (simp add: list_eq_iff_nth_eq)
  from all e2' fall rl n3 show ?thesis by (simp add: pp)
qed

end
